theory Spec2Isabelle
  imports Complex_Main "HOL-Library.Log_Nat"
begin

section \<open>The arithmetic of \<open>qreal\<close>\<close>

text \<open>
  \<open>qreal\<close> is the toolkit's name for \<open>double\<close>, the IEEE 754 binary64 format. A value
  is a finite real, one of the two infinities, or NaN. The two zeros are one value
  here: they compare equal, convert to the same \<open>int\<close> and differ in no sum that the
  header computes. \<open>Fin r\<close> is a value of the format when \<open>round64 r = Fin r\<close>
  (\<open>is_double\<close>); every result of an operation is one.

  An addition is the exact sum rounded to the nearest value of the format, ties to the
  even significand (\<open>round64\<close>), once for every \<open>+=\<close> and \<open>-\<close> of the source.
  \<open>binade r\<close> is the exponent \<open>e\<close> with \<open>2\<^sup>e \<le> \<bar>r\<bar> < 2\<^sup>e\<^sup>+\<^sup>1\<close>, not below \<open>-1022\<close> (the
  subnormal range), \<open>ulp r\<close> is the spacing \<open>2\<^sup>e\<^sup>-\<^sup>5\<^sup>2\<close> of the values there, and a result
  of magnitude \<open>2\<^sup>1\<^sup>0\<^sup>2\<^sup>4\<close> or more is an infinity.
\<close>

datatype qreal = Fin real | PInf | NInf | NaN

text \<open>
  \<open>ilog2 x\<close> is \<open>\<lfloor>log\<^sub>2 x\<rfloor>\<close> for \<open>x > 0\<close>, computed on integers: \<open>bitlen n\<close> is the number
  of binary digits of \<open>n\<close>.
\<close>

definition ilog2 :: "real \<Rightarrow> int" where
  "ilog2 x = (if 1 \<le> x then bitlen \<lfloor>x\<rfloor> - 1 else - bitlen (\<lceil>1 / x\<rceil> - 1))"

definition binade :: "real \<Rightarrow> int" where
  "binade r = max (ilog2 \<bar>r\<bar>) (- 1022)"

definition ulp :: "real \<Rightarrow> real" where
  "ulp r = 2 powi (binade r - 52)"

definition round_half_even :: "real \<Rightarrow> int" where
  "round_half_even q =
     (let f = \<lfloor>q\<rfloor>; d = q - of_int f
      in if d < 1 / 2 then f
         else if 1 / 2 < d then f + 1
         else if even f then f else f + 1)"

definition round_magnitude :: "real \<Rightarrow> real" where
  "round_magnitude r = of_int (round_half_even (r / ulp r)) * ulp r"

definition round_nearest :: "real \<Rightarrow> real" where
  "round_nearest r = (if r < 0 then - round_magnitude (- r) else round_magnitude r)"

definition round64 :: "real \<Rightarrow> qreal" where
  "round64 r =
     (let y = round_nearest r
      in if 2 ^ 1024 \<le> y then PInf
         else if y \<le> - (2 ^ 1024) then NInf
         else Fin y)"

definition is_double :: "qreal \<Rightarrow> bool" where
  "is_double q = (case q of Fin r \<Rightarrow> round64 r = Fin r | _ \<Rightarrow> True)"

fun qneg :: "qreal \<Rightarrow> qreal" where
  "qneg (Fin a) = Fin (- a)"
| "qneg PInf = NInf"
| "qneg NInf = PInf"
| "qneg NaN = NaN"

text \<open>\<open>x + y\<close>: NaN is contagious and the sum of opposite infinities is NaN.\<close>

fun qadd :: "qreal \<Rightarrow> qreal \<Rightarrow> qreal" where
  "qadd (Fin a) (Fin b) = round64 (a + b)"
| "qadd NaN y = NaN"
| "qadd x NaN = NaN"
| "qadd PInf NInf = NaN"
| "qadd NInf PInf = NaN"
| "qadd PInf y = PInf"
| "qadd x PInf = PInf"
| "qadd NInf y = NInf"
| "qadd x NInf = NInf"

text \<open>\<open>x - y\<close> is \<open>x + (-y)\<close>, with the same rounding.\<close>

definition qsub :: "qreal \<Rightarrow> qreal \<Rightarrow> qreal" where
  "qsub x y = qadd x (qneg y)"

text \<open>\<open>x <= y\<close>, \<open>x < y\<close> and \<open>x >= y\<close>: every comparison with NaN is false.\<close>

fun qle :: "qreal \<Rightarrow> qreal \<Rightarrow> bool" where
  "qle NaN y = False"
| "qle x NaN = False"
| "qle NInf y = True"
| "qle x PInf = True"
| "qle (Fin a) (Fin b) = (a \<le> b)"
| "qle x y = False"

fun qlt :: "qreal \<Rightarrow> qreal \<Rightarrow> bool" where
  "qlt NaN y = False"
| "qlt x NaN = False"
| "qlt (Fin a) (Fin b) = (a < b)"
| "qlt NInf NInf = False"
| "qlt NInf y = True"
| "qlt PInf y = False"
| "qlt x PInf = True"
| "qlt x y = False"

definition qge :: "qreal \<Rightarrow> qreal \<Rightarrow> bool" where
  "qge x y = qle y x"

text \<open>The conversion of an \<open>int\<close> to \<open>qreal\<close>; it is exact for every 32-bit \<open>int\<close>.\<close>

definition qreal_of_int :: "int \<Rightarrow> qreal" where
  "qreal_of_int i = round64 (of_int i)"

text \<open>
  The conversion of a \<open>qreal\<close> to the 32-bit \<open>int\<close> truncates towards zero. For NaN, an
  infinity or a value outside the range of \<open>int\<close> the language leaves the result
  undefined; \<open>overflow\<close> stands for what the machine delivers then (\<open>INT_MIN\<close> on
  x86-64).
\<close>

definition qreal_to_int :: "int \<Rightarrow> qreal \<Rightarrow> int" where
  "qreal_to_int overflow q =
     (case q of
        Fin r \<Rightarrow>
          (let t = (if 0 \<le> r then \<lfloor>r\<rfloor> else \<lceil>r\<rceil>)
           in if - 2147483648 \<le> t \<and> t \<le> 2147483647 then t else overflow)
      | _ \<Rightarrow> overflow)"

section \<open>The column header of the item view (kitemlistheader.cpp)\<close>

text \<open>
  The header widget keeps an ordered list of visible roles (columns), a hash from role to
  width, the index of the hovered and of the pressed role, and a pointer to the model.

  Modelling decisions:
  \<^item> \<open>QByteArray\<close> is a \<open>string\<close>; \<open>QList<QByteArray>\<close> is a list.
  \<^item> \<open>qreal\<close> is the type \<open>qreal\<close> above: \<open>+=\<close> is \<open>qadd\<close>, \<open>-\<close> is \<open>qsub\<close>, \<open><=\<close> is
    \<open>qle\<close> and \<open>>=\<close> is \<open>qge\<close>, so every running sum is rounded as the code rounds it.
  \<^item> \<open>int\<close> is modelled as \<open>int\<close>: an index counts the elements of a \<open>QList\<close>, whose
    size is itself an \<open>int\<close>, so the counter cannot wrap.
  \<^item> \<open>QHash<QByteArray, qreal>\<close> is a map \<open>role \<rightharpoonup> qreal\<close>. \<open>QHash::value(key)\<close>
    yields a default-constructed value for an absent key, which for \<open>qreal\<close> is \<open>0\<close>.
  \<^item> \<open>QList::at(i)\<close> asserts \<open>0 \<le> i < size()\<close>; a failed assertion is the value \<open>None\<close>.
  \<^item> The model pointer \<open>m_model\<close> is an optional handle; \<open>None\<close> is the null pointer and
    dereferencing it is the value \<open>None\<close> of the function that does so.
  \<^item> \<open>update()\<close> is counted in the field \<open>update_requests\<close>; \<open>setCursor\<close> and
    \<open>unsetCursor\<close> write the field \<open>cursor\<close>; \<open>connect\<close> and \<open>disconnect\<close> edit the
    list \<open>connections\<close>.
  \<^item> What the toolkit supplies (the style's grip margin, the widget's size and flags,
    the model's role descriptions, text elision, \<open>QRectF::toRect\<close>, the state that
    \<open>QStyleOption::init\<close> reads from the widget, the result of an out-of-range
    conversion to \<open>int\<close>) is a parameter, the record \<open>host\<close>.
  \<^item> The handlers of the base class \<open>QGraphicsWidget\<close> that the event handlers call
    first, and \<open>event->accept()\<close>, belong to the toolkit and are left out.
  \<^item> What \<open>paint\<close> sends to the painter and to the style is a list of \<open>paint_cmd\<close>.
\<close>

type_synonym role = string
type_synonym model_handle = nat
type_synonym QPointF = "qreal \<times> qreal"
type_synonym QRectF = "qreal \<times> qreal \<times> qreal \<times> qreal"
type_synonym QRect = "int \<times> int \<times> int \<times> int"

datatype model_signal = SortRoleChanged | SortOrderChanged

datatype cursor_shape = SplitHCursor

datatype state_flag =
  State_Raised | State_Enabled | State_Active | State_MouseOver | State_Sunken | State_Horizontal

datatype section_position = OnlyOneSection | Beginning | End | Middle

datatype selected_position = NotAdjacent

record header =
  m_model :: "model_handle option"
  m_visibleRoles :: "role list"
  m_visibleRolesWidths :: "role \<rightharpoonup> qreal"
  m_hoveredRoleIndex :: int
  m_pressedRoleIndex :: int
  m_resizePressedRole :: bool
  update_requests :: nat
  cursor :: "cursor_shape option"
  connections :: "(model_handle \<times> model_signal) list"

record host =
  PM_HeaderGripMargin :: int
  size_width :: qreal
  size_height :: qreal
  isEnabled :: bool
  window_isActiveWindow :: bool
  roleDescription :: "model_handle \<Rightarrow> role \<Rightarrow> string"
  elidedText :: "string \<Rightarrow> int \<Rightarrow> string"
  toRect :: "QRectF \<Rightarrow> QRect"
  widget_option_state :: "state_flag set"
  int_conversion_overflow :: int

definition pos_x :: "QPointF \<Rightarrow> qreal" where
  "pos_x pos = fst pos"

text \<open>\<open>QHash::value(key)\<close>: the stored value, or the default-constructed \<open>0\<close>.\<close>

definition hash_value :: "(role \<rightharpoonup> qreal) \<Rightarrow> role \<Rightarrow> qreal" where
  "hash_value h key = (case h key of None \<Rightarrow> Fin 0 | Some v \<Rightarrow> v)"

text \<open>\<open>QList::at(i)\<close>.\<close>

definition list_at :: "'a list \<Rightarrow> int \<Rightarrow> 'a option" where
  "list_at xs i = (if 0 \<le> i \<and> i < int (length xs) then Some (xs ! nat i) else None)"

text \<open>The constructor.\<close>

definition KItemListHeader :: header where
  "KItemListHeader =
     \<lparr> m_model = None,
       m_visibleRoles = [],
       m_visibleRolesWidths = Map.empty,
       m_hoveredRoleIndex = - 1,
       m_pressedRoleIndex = - 1,
       m_resizePressedRole = False,
       update_requests = 0,
       cursor = None,
       connections = [] \<rparr>"

definition update :: "header \<Rightarrow> header" where
  "update s = s\<lparr>update_requests := Suc (update_requests s)\<rparr>"

definition disconnect_model :: "model_handle \<Rightarrow> header \<Rightarrow> header" where
  "disconnect_model m s =
     s\<lparr>connections :=
         removeAll (m, SortOrderChanged) (removeAll (m, SortRoleChanged) (connections s))\<rparr>"

definition connect_model :: "model_handle \<Rightarrow> header \<Rightarrow> header" where
  "connect_model m s =
     s\<lparr>connections := connections s @ [(m, SortRoleChanged), (m, SortOrderChanged)]\<rparr>"

definition setModel :: "model_handle option \<Rightarrow> header \<Rightarrow> header" where
  "setModel model s =
     (if m_model s = model then s
      else
        let s1 = (case m_model s of None \<Rightarrow> s | Some old \<Rightarrow> disconnect_model old s);
            s2 = s1\<lparr>m_model := model\<rparr>
        in (case m_model s2 of None \<Rightarrow> s2 | Some new \<Rightarrow> connect_model new s2))"

definition setVisibleRoles :: "role list \<Rightarrow> header \<Rightarrow> header" where
  "setVisibleRoles roles s = update (s\<lparr>m_visibleRoles := roles\<rparr>)"

definition setVisibleRolesWidths :: "(role \<rightharpoonup> qreal) \<Rightarrow> header \<Rightarrow> header" where
  "setVisibleRolesWidths rolesWidths s = update (s\<lparr>m_visibleRolesWidths := rolesWidths\<rparr>)"

subsection \<open>Hit-testing\<close>

text \<open>
  The loop of \<open>roleIndexAt\<close>: \<open>index\<close> and \<open>x\<close> are the two local variables, \<open>px\<close> is
  \<open>pos.x()\<close>. The first equation is the loop running off the end of the list, the
  \<open>if\<close> is the \<open>break\<close>.
\<close>

fun roleIndexAt_loop ::
  "(role \<rightharpoonup> qreal) \<Rightarrow> qreal \<Rightarrow> role list \<Rightarrow> int \<Rightarrow> qreal \<Rightarrow> int" where
  "roleIndexAt_loop widths px [] index x = index"
| "roleIndexAt_loop widths px (role # roles) index x =
     (let index' = index + 1;
          x' = qadd x (hash_value widths role)
      in if qle px x' then index' else roleIndexAt_loop widths px roles index' x')"

definition roleIndexAt :: "header \<Rightarrow> QPointF \<Rightarrow> int" where
  "roleIndexAt s pos =
     roleIndexAt_loop (m_visibleRolesWidths s) (pos_x pos) (m_visibleRoles s) (- 1) (Fin 0)"

text \<open>
  The loop of \<open>isAboveRoleGrip\<close>, \<open>for (int i = 0; i <= roleIndex; ++i)\<close>; the result is
  the accumulated \<open>x\<close>, or \<open>None\<close> when \<open>m_visibleRoles.at(i)\<close> is out of range.
\<close>

function isAboveRoleGrip_loop ::
  "(role \<rightharpoonup> qreal) \<Rightarrow> role list \<Rightarrow> int \<Rightarrow> int \<Rightarrow> qreal \<Rightarrow> qreal option" where
  "isAboveRoleGrip_loop widths roles roleIndex i x =
     (if i \<le> roleIndex then
        (case list_at roles i of
           None \<Rightarrow> None
         | Some role \<Rightarrow>
             isAboveRoleGrip_loop widths roles roleIndex (i + 1)
               (qadd x (hash_value widths role)))
      else Some x)"
  by pat_completeness auto
termination
  by (relation "measure (\<lambda>(widths, roles, roleIndex, i, x). nat (roleIndex + 1 - i))") auto

declare isAboveRoleGrip_loop.simps [simp del]

definition isAboveRoleGrip :: "host \<Rightarrow> header \<Rightarrow> QPointF \<Rightarrow> int \<Rightarrow> bool option" where
  "isAboveRoleGrip h s pos roleIndex =
     (case isAboveRoleGrip_loop (m_visibleRolesWidths s) (m_visibleRoles s) roleIndex 0 (Fin 0) of
        None \<Rightarrow> None
      | Some x \<Rightarrow>
          let grip = PM_HeaderGripMargin h
          in Some (qge (pos_x pos) (qsub x (qreal_of_int grip)) \<and> qle (pos_x pos) x))"

subsection \<open>Pointer events\<close>

definition updatePressedRoleIndex :: "QPointF \<Rightarrow> header \<Rightarrow> header" where
  "updatePressedRoleIndex pos s =
     (let pressedIndex = roleIndexAt s pos
      in if m_pressedRoleIndex s \<noteq> pressedIndex
         then update (s\<lparr>m_pressedRoleIndex := pressedIndex\<rparr>)
         else s)"

definition updateHoveredRoleIndex :: "QPointF \<Rightarrow> header \<Rightarrow> header" where
  "updateHoveredRoleIndex pos s =
     (let hoverIndex = roleIndexAt s pos
      in if m_hoveredRoleIndex s \<noteq> hoverIndex
         then update (s\<lparr>m_hoveredRoleIndex := hoverIndex\<rparr>)
         else s)"

definition mousePressEvent :: "QPointF \<Rightarrow> header \<Rightarrow> header" where
  "mousePressEvent pos s = updatePressedRoleIndex pos s"

definition mouseReleaseEvent :: "header \<Rightarrow> header" where
  "mouseReleaseEvent s =
     (if m_pressedRoleIndex s \<noteq> - 1
      then update (s\<lparr>m_pressedRoleIndex := - 1\<rparr>)
      else s)"

definition mouseMoveEvent :: "QPointF \<Rightarrow> header \<Rightarrow> header" where
  "mouseMoveEvent pos s = updatePressedRoleIndex pos s"

definition hoverEnterEvent :: "QPointF \<Rightarrow> header \<Rightarrow> header" where
  "hoverEnterEvent pos s = updateHoveredRoleIndex pos s"

definition hoverLeaveEvent :: "header \<Rightarrow> header" where
  "hoverLeaveEvent s =
     (if m_hoveredRoleIndex s \<noteq> - 1
      then update (s\<lparr>m_hoveredRoleIndex := - 1\<rparr>)
      else s)"

text \<open>
  \<open>hoverMoveEvent\<close>: the conjunction short-circuits, so \<open>isAboveRoleGrip\<close> is called
  only when the hovered index is not negative.
\<close>

definition hoverMoveEvent :: "host \<Rightarrow> QPointF \<Rightarrow> header \<Rightarrow> header option" where
  "hoverMoveEvent h pos s =
     (let s1 = updateHoveredRoleIndex pos s
      in if m_hoveredRoleIndex s1 \<ge> 0 then
           (case isAboveRoleGrip h s1 pos (m_hoveredRoleIndex s1) of
              None \<Rightarrow> None
            | Some overGrip \<Rightarrow>
                if overGrip then Some (s1\<lparr>cursor := Some SplitHCursor\<rparr>)
                else Some (s1\<lparr>cursor := None\<rparr>))
         else Some (s1\<lparr>cursor := None\<rparr>))"

definition slotSortRoleChanged :: "role \<Rightarrow> role \<Rightarrow> header \<Rightarrow> header" where
  "slotSortRoleChanged current previous s = s"

datatype SortOrder = AscendingOrder | DescendingOrder

definition slotSortOrderChanged :: "SortOrder \<Rightarrow> SortOrder \<Rightarrow> header \<Rightarrow> header" where
  "slotSortOrderChanged current previous s = s"


subsection \<open>Painting\<close>

record QStyleOptionHeader =
  option_section :: int
  option_state :: "state_flag set"
  option_rect :: QRect
  option_position :: section_position
  option_selectedPosition :: selected_position
  option_text :: string

datatype paint_cmd =
    SetFont
  | SetPen
  | DrawControl_Header QStyleOptionHeader
  | DrawControl_HeaderEmptyArea QRect "state_flag set"

definition rect_width :: "QRect \<Rightarrow> int" where
  "rect_width r = (case r of (x, y, w, hh) \<Rightarrow> w)"

text \<open>
  \<open>paintRole\<close> dereferences \<open>m_model\<close> for the role's description; on a null pointer
  the result is \<open>None\<close>.
\<close>

definition paintRole :: "host \<Rightarrow> header \<Rightarrow> role \<Rightarrow> QRectF \<Rightarrow> int \<Rightarrow> paint_cmd option" where
  "paintRole h s role rect orderIndex =
     (let st0 = {State_Raised};
          st1 = (if isEnabled h then insert State_Enabled st0 else st0);
          st2 = (if window_isActiveWindow h then insert State_Active st1 else st1);
          st3 = (if m_hoveredRoleIndex s = orderIndex then insert State_MouseOver st2 else st2);
          st4 = (if m_pressedRoleIndex s = orderIndex then insert State_Sunken st3 else st3);
          orect = toRect h rect;
          count = int (length (m_visibleRoles s));
          pos = (if count = 1 then OnlyOneSection
                 else if orderIndex = 0 then Beginning
                 else if orderIndex = count - 1 then End
                 else Middle)
      in case m_model s of
           None \<Rightarrow> None
         | Some m \<Rightarrow>
             let txt = roleDescription h m role;
                 grip = PM_HeaderGripMargin h
             in Some (DrawControl_Header
                  \<lparr> option_section = orderIndex,
                    option_state = st4,
                    option_rect = orect,
                    option_position = pos,
                    option_selectedPosition = NotAdjacent,
                    option_text = elidedText h txt (rect_width orect - grip) \<rparr>))"

text \<open>
  The loop of \<open>paint\<close> over the visible roles, with its local variables \<open>x\<close> and
  \<open>orderIndex\<close>; it yields the commands drawn and the final \<open>x\<close>.
\<close>

fun paint_loop ::
  "host \<Rightarrow> header \<Rightarrow> role list \<Rightarrow> qreal \<Rightarrow> int \<Rightarrow> (paint_cmd list \<times> qreal) option" where
  "paint_loop h s [] x orderIndex = Some ([], x)"
| "paint_loop h s (role # roles) x orderIndex =
     (let roleWidth = hash_value (m_visibleRolesWidths s) role;
          rect = (x, Fin 0, roleWidth, size_height h)
      in case paintRole h s role rect orderIndex of
           None \<Rightarrow> None
         | Some c \<Rightarrow>
             (case paint_loop h s roles (qadd x roleWidth) (orderIndex + 1) of
                None \<Rightarrow> None
              | Some (cs, x') \<Rightarrow> Some (c # cs, x')))"

definition paint :: "host \<Rightarrow> header \<Rightarrow> paint_cmd list option" where
  "paint h s =
     (case m_model s of
        None \<Rightarrow> Some []
      | Some m \<Rightarrow>
          (case paint_loop h s (m_visibleRoles s) (Fin 0) 0 of
             None \<Rightarrow> None
           | Some (cs, x) \<Rightarrow>
               let ov = int_conversion_overflow h
               in Some ([SetFont, SetPen] @ cs @
                        [DrawControl_HeaderEmptyArea
                           (qreal_to_int ov x, 0, qreal_to_int ov (qsub (size_width h) x),
                            qreal_to_int ov (size_height h))
                           (insert State_Horizontal (widget_option_state h))])))"

subsection \<open>The operations of the widget as one step function\<close>

datatype operation =
    SetModel "model_handle option"
  | SetVisibleRoles "role list"
  | SetVisibleRolesWidths "role \<rightharpoonup> qreal"
  | MousePressEvent QPointF
  | MouseReleaseEvent
  | MouseMoveEvent QPointF
  | HoverEnterEvent QPointF
  | HoverLeaveEvent
  | HoverMoveEvent QPointF
  | SlotSortRoleChanged role role
  | SlotSortOrderChanged SortOrder SortOrder

fun run :: "host \<Rightarrow> operation \<Rightarrow> header \<Rightarrow> header option" where
  "run h (SetModel model) s = Some (setModel model s)"
| "run h (SetVisibleRoles roles) s = Some (setVisibleRoles roles s)"
| "run h (SetVisibleRolesWidths rolesWidths) s = Some (setVisibleRolesWidths rolesWidths s)"
| "run h (MousePressEvent pos) s = Some (mousePressEvent pos s)"
| "run h MouseReleaseEvent s = Some (mouseReleaseEvent s)"
| "run h (MouseMoveEvent pos) s = Some (mouseMoveEvent pos s)"
| "run h (HoverEnterEvent pos) s = Some (hoverEnterEvent pos s)"
| "run h HoverLeaveEvent s = Some (hoverLeaveEvent s)"
| "run h (HoverMoveEvent pos) s = hoverMoveEvent h pos s"
| "run h (SlotSortRoleChanged current previous) s = Some (slotSortRoleChanged current previous s)"
| "run h (SlotSortOrderChanged current previous) s = Some (slotSortOrderChanged current previous s)"

fun run_ops :: "host \<Rightarrow> operation list \<Rightarrow> header \<Rightarrow> header option" where
  "run_ops h [] s = Some s"
| "run_ops h (op # ops) s =
     (case run h op s of None \<Rightarrow> None | Some s' \<Rightarrow> run_ops h ops s')"

subsection \<open>The vocabulary of the specification\<close>

text \<open>
  \<open>edge widths roles k\<close> is the running sum of the widths of the first \<open>k\<close> columns as
  the header accumulates it, from \<open>0\<close>, left to right, every addition rounded: the left
  edge of column \<open>k\<close> and the right edge of column \<open>k - 1\<close>.
\<close>

definition edge :: "(role \<rightharpoonup> qreal) \<Rightarrow> role list \<Rightarrow> nat \<Rightarrow> qreal" where
  "edge widths roles k = foldl qadd (Fin 0) (map (hash_value widths) (take k roles))"

definition rightEdge :: "header \<Rightarrow> nat \<Rightarrow> qreal" where
  "rightEdge s i = edge (m_visibleRolesWidths s) (m_visibleRoles s) (Suc i)"

definition leftEdge :: "header \<Rightarrow> nat \<Rightarrow> qreal" where
  "leftEdge s i = edge (m_visibleRolesWidths s) (m_visibleRoles s) i"

definition totalWidth :: "header \<Rightarrow> qreal" where
  "totalWidth s = edge (m_visibleRolesWidths s) (m_visibleRoles s) (length (m_visibleRoles s))"

definition nonneg_widths :: "header \<Rightarrow> bool" where
  "nonneg_widths s =
     list_all (\<lambda>role. qle (Fin 0) (hash_value (m_visibleRolesWidths s) role)) (m_visibleRoles s)"

text \<open>
  A running sum is good when it is a value of the format and not negative. With
  non-negative widths every running sum is good and the sums do not decrease.
\<close>

definition good :: "qreal \<Rightarrow> bool" where
  "good x = (is_double x \<and> qle (Fin 0) x)"

text \<open>
  The sums as the specification words them, exact sums of real numbers; they exist when
  the widths are finite.
\<close>

fun exact_sum :: "qreal list \<Rightarrow> real option" where
  "exact_sum [] = Some 0"
| "exact_sum (Fin r # qs) = (case exact_sum qs of None \<Rightarrow> None | Some t \<Rightarrow> Some (r + t))"
| "exact_sum (q # qs) = None"

definition exact_edge :: "header \<Rightarrow> nat \<Rightarrow> real option" where
  "exact_edge s k = exact_sum (map (hash_value (m_visibleRolesWidths s)) (take k (m_visibleRoles s)))"

text \<open>
  The specification's "\<open>columnAt(x)\<close> returns \<open>i\<close> exactly when (sum of \<open>w\<^sub>0..w\<^sub>i\<^sub>-\<^sub>1\<close>) \<open>< x \<le>\<close>
  (sum of \<open>w\<^sub>0..w\<^sub>i\<close>)", its "\<open>x\<close> is within \<open>[rightEdge(i) - gripMargin, rightEdge(i)]\<close>" and
  its "\<open>pointerX\<close> exceeds total width", each with the exact sums.
\<close>

definition spec_column_range :: "header \<Rightarrow> real \<Rightarrow> nat \<Rightarrow> bool" where
  "spec_column_range s x i =
     (case (exact_edge s i, exact_edge s (Suc i)) of
        (Some l, Some r) \<Rightarrow> l < x \<and> x \<le> r
      | _ \<Rightarrow> False)"

definition spec_grip_range :: "header \<Rightarrow> int \<Rightarrow> real \<Rightarrow> nat \<Rightarrow> bool" where
  "spec_grip_range s gripMargin x i =
     (case exact_edge s (Suc i) of
        Some r \<Rightarrow> r - of_int gripMargin \<le> x \<and> x \<le> r
      | None \<Rightarrow> False)"

definition spec_exceeds_total :: "header \<Rightarrow> real \<Rightarrow> bool" where
  "spec_exceeds_total s x =
     (case exact_edge s (length (m_visibleRoles s)) of
        Some t \<Rightarrow> t < x
      | None \<Rightarrow> False)"

text \<open>An index is "none" (\<open>-1\<close>) or a valid index into the list of roles.\<close>

definition valid_index :: "role list \<Rightarrow> int \<Rightarrow> bool" where
  "valid_index roles i = (i = - 1 \<or> (0 \<le> i \<and> i < int (length roles)))"

definition header_inv :: "header \<Rightarrow> bool" where
  "header_inv s =
     (valid_index (m_visibleRoles s) (m_hoveredRoleIndex s) \<and>
      valid_index (m_visibleRoles s) (m_pressedRoleIndex s))"

text \<open>
  The handlers that assign the hovered index, the handlers that assign the pressed
  index, and the one operation that replaces the list of roles.
\<close>

fun writes_hovered :: "operation \<Rightarrow> bool" where
  "writes_hovered (HoverEnterEvent pos) = True"
| "writes_hovered HoverLeaveEvent = True"
| "writes_hovered (HoverMoveEvent pos) = True"
| "writes_hovered op = False"

fun writes_pressed :: "operation \<Rightarrow> bool" where
  "writes_pressed (MousePressEvent pos) = True"
| "writes_pressed MouseReleaseEvent = True"
| "writes_pressed (MouseMoveEvent pos) = True"
| "writes_pressed op = False"

fun replaces_roles :: "operation \<Rightarrow> role list option" where
  "replaces_roles (SetVisibleRoles roles) = Some roles"
| "replaces_roles op = None"

text \<open>The header with the width of \<open>role\<close> entered as \<open>0\<close>.\<close>

definition with_zero_width :: "role \<Rightarrow> header \<Rightarrow> header" where
  "with_zero_width role s =
     s\<lparr>m_visibleRolesWidths := (m_visibleRolesWidths s)(role \<mapsto> Fin 0)\<rparr>"

section \<open>The version control plugin interface (kversioncontrolplugin.h)\<close>

text \<open>
  The enumeration \<open>KVersionControlPlugin::ItemVersion\<close>, the result type of the pure
  virtual \<open>itemVersion\<close>. The enumerators have no initialisers, so their values count
  up from \<open>0\<close> in the order of declaration.
\<close>

datatype ItemVersion =
    UnversionedVersion
  | NormalVersion
  | UpdateRequiredVersion
  | LocallyModifiedVersion
  | AddedVersion
  | RemovedVersion
  | ConflictingVersion
  | LocallyModifiedUnstagedVersion
  | IgnoredVersion
  | MissingVersion

fun ItemVersion_value :: "ItemVersion \<Rightarrow> int" where
  "ItemVersion_value UnversionedVersion = 0"
| "ItemVersion_value NormalVersion = 1"
| "ItemVersion_value UpdateRequiredVersion = 2"
| "ItemVersion_value LocallyModifiedVersion = 3"
| "ItemVersion_value AddedVersion = 4"
| "ItemVersion_value RemovedVersion = 5"
| "ItemVersion_value ConflictingVersion = 6"
| "ItemVersion_value LocallyModifiedUnstagedVersion = 7"
| "ItemVersion_value IgnoredVersion = 8"
| "ItemVersion_value MissingVersion = 9"

text \<open>The classification as the data model of the specification lists it.\<close>

definition spec_version_statuses :: "ItemVersion list" where
  "spec_version_statuses =
     [UnversionedVersion, NormalVersion, UpdateRequiredVersion, LocallyModifiedVersion,
      AddedVersion, RemovedVersion, ConflictingVersion, LocallyModifiedUnstagedVersion,
      IgnoredVersion, MissingVersion]"

section \<open>Concrete inputs\<close>

text \<open>
  The example of the specification: three columns \<open>A\<close>, \<open>B\<close>, \<open>C\<close> of widths 50, 30
  and 20 on a freshly constructed header, and a host whose style has a grip margin of 4.
\<close>

definition abc_header :: header where
  "abc_header =
     setVisibleRolesWidths [''A'' \<mapsto> Fin 50, ''B'' \<mapsto> Fin 30, ''C'' \<mapsto> Fin 20]
       (setVisibleRoles [''A'', ''B'', ''C''] KItemListHeader)"

definition plain_host :: host where
  "plain_host =
     \<lparr> PM_HeaderGripMargin = 4,
       size_width = Fin 200,
       size_height = Fin 20,
       isEnabled = True,
       window_isActiveWindow = True,
       roleDescription = (\<lambda>m role. role),
       elidedText = (\<lambda>txt w. txt),
       toRect = (\<lambda>(x, y, w, hh).
         (qreal_to_int (- 2147483648) x, qreal_to_int (- 2147483648) y,
          qreal_to_int (- 2147483648) w, qreal_to_int (- 2147483648) hh)),
       widget_option_state = {State_Enabled},
       int_conversion_overflow = - 2147483648 \<rparr>"

text \<open>
  The same header showing a column \<open>D\<close> that has no entry in the hash of widths, without
  and with a model.
\<close>

definition adc_header :: header where
  "adc_header = setVisibleRoles [''A'', ''D'', ''C''] abc_header"

definition adc_model_header :: header where
  "adc_model_header = setModel (Some 7) adc_header"

text \<open>
  The header after the pointer has entered over column \<open>C\<close> and the list of columns has
  then been replaced by the single column \<open>A\<close>.
\<close>

definition stale_header :: header where
  "stale_header = setVisibleRoles [''A''] (hoverEnterEvent (Fin 90, Fin 0) abc_header)"

text \<open>
  The values of the format nearest to 0.1, 0.2 and 0.3000000000000000444, and a header
  with columns of widths 0.1, 0.2 and 0. The sum of the first two values lies halfway
  between two values of the format and is rounded up.
\<close>

definition dbl_0_1 :: qreal where
  "dbl_0_1 = Fin (3602879701896397 / 36028797018963968)"

definition dbl_0_2 :: qreal where
  "dbl_0_2 = Fin (3602879701896397 / 18014398509481984)"

definition dbl_0_3 :: qreal where
  "dbl_0_3 = Fin (1351079888211149 / 4503599627370496)"

definition tenths_header :: header where
  "tenths_header =
     setVisibleRolesWidths [''A'' \<mapsto> dbl_0_1, ''B'' \<mapsto> dbl_0_2, ''C'' \<mapsto> Fin 0]
       (setVisibleRoles [''A'', ''B'', ''C''] KItemListHeader)"

section \<open>Properties of the rounding\<close>

subsection \<open>Rounding to an integer, and the binade of a real\<close>

lemma rhe_cases: "round_half_even q = \<lfloor>q\<rfloor> \<or> round_half_even q = \<lfloor>q\<rfloor> + 1"
  by (simp add: round_half_even_def Let_def)

lemma rhe_of_int: "round_half_even (of_int n) = n"
  by (simp add: round_half_even_def)

lemma rhe_mono: "q1 \<le> q2 \<Longrightarrow> round_half_even q1 \<le> round_half_even q2"
proof -
  assume le: "q1 \<le> q2"
  have f: "\<lfloor>q1\<rfloor> \<le> \<lfloor>q2\<rfloor>" using le by (rule floor_mono)
  show ?thesis
  proof (cases "\<lfloor>q1\<rfloor> = \<lfloor>q2\<rfloor>")
    case True
    with le show ?thesis by (auto simp: round_half_even_def Let_def)
  next
    case False
    with f have "\<lfloor>q1\<rfloor> + 1 \<le> \<lfloor>q2\<rfloor>" by simp
    moreover have "round_half_even q1 \<le> \<lfloor>q1\<rfloor> + 1" using rhe_cases [of q1] by auto
    moreover have "\<lfloor>q2\<rfloor> \<le> round_half_even q2" using rhe_cases [of q2] by auto
    ultimately show ?thesis by linarith
  qed
qed

lemma ilog2_bracket:
  assumes "0 < x"
  shows "2 powi (ilog2 x) \<le> x \<and> x < 2 powi (ilog2 x + 1)"
proof (cases "1 \<le> x")
  case True
  let ?n = "nat \<lfloor>x\<rfloor>"
  let ?k = "floorlog 2 ?n"
  from True have n: "0 < ?n" by simp
  from floorlog_bounds [OF n, of 2]
  have b: "2 ^ (?k - 1) \<le> ?n" "?n < 2 ^ ?k" by simp_all
  from n have k: "0 < ?k" by (simp add: floorlog_def)
  have i: "ilog2 x = int ?k - 1" using True by (simp add: ilog2_def bitlen_def)
  have "real (2 ^ (?k - 1)) \<le> real ?n" using b(1) by (rule of_nat_mono)
  then have "(2::real) ^ (?k - 1) \<le> real ?n" by (simp only: of_nat_power of_nat_numeral)
  moreover have "real ?n \<le> x" using True by simp
  ultimately have lo: "2 ^ (?k - 1) \<le> x" by linarith
  have "int ?n + 1 \<le> 2 ^ ?k" using b(2) by (metis of_nat_less_iff of_nat_numeral of_nat_power zless_imp_add1_zle)
  then have "real_of_int (int ?n + 1) \<le> real_of_int (2 ^ ?k)" by (rule of_int_le_iff [THEN iffD2])
  then have "real_of_int (int ?n + 1) \<le> 2 ^ ?k" by (simp only: of_int_power of_int_numeral)
  moreover have "x < real_of_int (int ?n + 1)" using True by simp
  ultimately have hi: "x < 2 ^ ?k" by linarith
  have p1: "(2::real) powi (int ?k - 1) = 2 ^ (?k - 1)"
    using k by (simp add: power_int_def nat_diff_distrib')
  have p2: "(2::real) powi (int ?k - 1 + 1) = 2 ^ ?k" by simp
  from lo hi show ?thesis unfolding i p1 p2 by simp
next
  case False
  let ?m = "\<lceil>1 / x\<rceil>"
  let ?n = "nat (?m - 1)"
  let ?j = "floorlog 2 ?n"
  from False assms have inv: "1 < 1 / x" by simp
  then have m: "2 \<le> ?m" by linarith
  then have n: "0 < ?n" by simp
  from floorlog_bounds [OF n, of 2]
  have b: "2 ^ (?j - 1) \<le> ?n" "?n < 2 ^ ?j" by simp_all
  from n have j: "0 < ?j" by (simp add: floorlog_def)
  have i: "ilog2 x = - int ?j" using False by (simp only: ilog2_def bitlen_def if_False)
  have "0 \<le> ?m - 1" using m by linarith
  then have nm: "int ?n = ?m - 1" by (rule nat_0_le)
  have rn: "real ?n < 1 / x"
  proof -
    have "real_of_int (?m - 1) < 1 / x" by linarith
    with nm show ?thesis by (metis of_int_of_nat_eq)
  qed
  have "real (2 ^ (?j - 1)) \<le> real ?n" using b(1) by (rule of_nat_mono)
  then have "(2::real) ^ (?j - 1) \<le> real ?n" by (simp only: of_nat_power of_nat_numeral)
  with rn have up: "2 ^ (?j - 1) < 1 / x" by linarith
  have "?m \<le> 2 ^ ?j"
  proof -
    have "int ?n < 2 ^ ?j" using b(2) by (metis of_nat_less_iff of_nat_numeral of_nat_power)
    with nm show ?thesis by simp
  qed
  then have "real_of_int ?m \<le> real_of_int (2 ^ ?j)" by (rule of_int_le_iff [THEN iffD2])
  then have "real_of_int ?m \<le> 2 ^ ?j" by (simp only: of_int_power of_int_numeral)
  moreover have "1 / x \<le> real_of_int ?m" by (rule le_of_int_ceiling)
  ultimately have dn: "1 / x \<le> 2 ^ ?j" by linarith
  have p1: "(2::real) powi (- int ?j) = 1 / 2 ^ ?j"
    by (simp add: power_int_minus_divide)
  have p2: "(2::real) powi (- int ?j + 1) = 1 / 2 ^ (?j - 1)"
  proof -
    have "- int ?j + 1 = - int (?j - 1)" using j by simp
    then show ?thesis by (simp only: power_int_minus_divide power_int_of_nat)
  qed
  have lo: "1 / 2 ^ ?j \<le> x"
    using dn assms by (simp add: field_simps)
  have hi: "x < 1 / 2 ^ (?j - 1)"
    using up assms by (simp add: field_simps)
  from lo hi show ?thesis unfolding i p1 p2 by simp
qed

lemma p2_less_iff: "((2::real) powi a < 2 powi b) = (a < b)"
proof
  assume l: "(2::real) powi a < 2 powi b"
  show "a < b"
  proof (rule ccontr)
    assume "\<not> a < b"
    then have "b \<le> a" by simp
    then have "(2::real) powi b \<le> 2 powi a" by (rule power_int_increasing) simp
    with l show False by simp
  qed
next
  assume "a < b"
  then show "(2::real) powi a < 2 powi b" by (rule power_int_strict_increasing) simp
qed

lemma p2_le_iff: "((2::real) powi a \<le> 2 powi b) = (a \<le> b)"
  using p2_less_iff [of b a] by (simp add: not_less [symmetric])

lemma p2_pos: "0 < (2::real) powi a"
  by simp

lemma p2_add: "(2::real) powi (a + b) = 2 powi a * 2 powi b"
  by (rule power_int_add) simp

lemma p2_diff: "(2::real) powi (a - b) = 2 powi a / 2 powi b"
  by (rule power_int_diff) simp

lemma ilog2_unique:
  assumes "0 < x" "2 powi e \<le> x" "x < 2 powi (e + 1)"
  shows "ilog2 x = e"
proof -
  from ilog2_bracket [OF assms(1)]
  have b: "2 powi (ilog2 x) \<le> x" "x < 2 powi (ilog2 x + 1)" by simp_all
  have "(2::real) powi e < 2 powi (ilog2 x + 1)" using assms(2) b(2) by linarith
  then have 1: "e < ilog2 x + 1" by (simp only: p2_less_iff)
  have "(2::real) powi (ilog2 x) < 2 powi (e + 1)" using assms(3) b(1) by linarith
  then have 2: "ilog2 x < e + 1" by (simp only: p2_less_iff)
  from 1 2 show ?thesis by simp
qed

lemma ilog2_le:
  assumes "0 < x" "x < 2 powi (e + 1)"
  shows "ilog2 x \<le> e"
proof -
  from ilog2_bracket [OF assms(1)] have "2 powi (ilog2 x) \<le> x" by simp
  with assms(2) have "(2::real) powi (ilog2 x) < 2 powi (e + 1)" by linarith
  then show ?thesis by (simp only: p2_less_iff)
qed

lemma ilog2_ge:
  assumes "0 < x" "2 powi e \<le> x"
  shows "e \<le> ilog2 x"
proof -
  from ilog2_bracket [OF assms(1)] have "x < 2 powi (ilog2 x + 1)" by simp
  with assms(2) have "(2::real) powi e < 2 powi (ilog2 x + 1)" by linarith
  then show ?thesis by (simp only: p2_less_iff)
qed

lemma binade_ge: "- 1022 \<le> binade r"
  by (simp add: binade_def)

lemma binade_upper: "0 < r \<Longrightarrow> r < 2 powi (binade r + 1)"
proof -
  assume r: "0 < r"
  from ilog2_bracket [OF r] have "r < 2 powi (ilog2 r + 1)" by simp
  also have "(2::real) powi (ilog2 r + 1) \<le> 2 powi (binade r + 1)"
    using r by (simp only: p2_le_iff) (simp add: binade_def)
  finally show ?thesis .
qed

lemma binade_lower: "0 < r \<Longrightarrow> - 1022 < binade r \<Longrightarrow> 2 powi (binade r) \<le> r"
proof -
  assume r: "0 < r" and b: "- 1022 < binade r"
  then have "binade r = ilog2 r" by (simp add: binade_def max_def split: if_splits)
  with ilog2_bracket [OF r] show ?thesis by simp
qed

lemma binade_le:
  assumes "0 < r" "r < 2 powi (e + 1)" "- 1022 \<le> e"
  shows "binade r \<le> e"
  using ilog2_le [OF assms(1,2)] assms(1,3) by (simp add: binade_def)

lemma binade_mono:
  assumes "0 < a" "a \<le> b"
  shows "binade a \<le> binade b"
proof -
  from assms have b: "0 < b" by simp
  have "a < 2 powi (binade b + 1)" using binade_upper [OF b] assms(2) by simp
  then show ?thesis using binade_le [OF assms(1) _ binade_ge] by simp
qed

subsection \<open>Rounding is monotone\<close>

lemma ulp_pos: "0 < ulp r"
  by (simp add: ulp_def)

lemma rhe_le: "q \<le> of_int n \<Longrightarrow> round_half_even q \<le> n"
  using rhe_mono [of q "of_int n"] by (simp add: rhe_of_int)

lemma rhe_ge: "of_int n \<le> q \<Longrightarrow> n \<le> round_half_even q"
  using rhe_mono [of "of_int n" q] by (simp add: rhe_of_int)

lemma p2_53: "(2::real) powi (e + 1) = 2 ^ 53 * 2 powi (e - 52)"
proof -
  have "e + 1 = 53 + (e - 52)" by simp
  then have "(2::real) powi (e + 1) = 2 powi (53 + (e - 52))" by (rule arg_cong)
  also have "\<dots> = 2 powi 53 * 2 powi (e - 52)" by (rule p2_add)
  finally show ?thesis by simp
qed

lemma p2_52: "(2::real) powi e = 2 ^ 52 * 2 powi (e - 52)"
proof -
  have "e = 52 + (e - 52)" by simp
  then have "(2::real) powi e = 2 powi (52 + (e - 52))" by (rule arg_cong)
  also have "\<dots> = 2 powi 52 * 2 powi (e - 52)" by (rule p2_add)
  finally show ?thesis by simp
qed

lemma round_magnitude_nonneg: "0 \<le> r \<Longrightarrow> 0 \<le> round_magnitude r"
proof -
  assume "0 \<le> r"
  then have "of_int 0 \<le> r / ulp r" using ulp_pos [of r] by simp
  then have "0 \<le> round_half_even (r / ulp r)" by (rule rhe_ge)
  then show ?thesis using ulp_pos [of r] by (simp add: round_magnitude_def)
qed

lemma round_magnitude_0: "round_magnitude 0 = 0"
  by (simp add: round_magnitude_def round_half_even_def)

lemma round_magnitude_upper:
  assumes "0 < r"
  shows "round_magnitude r \<le> 2 powi (binade r + 1)"
proof -
  let ?u = "ulp r"
  have u: "0 < ?u" by (rule ulp_pos)
  have "r < 2 ^ 53 * ?u" using binade_upper [OF assms] by (simp add: p2_53 ulp_def)
  then have "r / ?u \<le> of_int (2 ^ 53)" using u by (simp add: field_simps)
  then have "round_half_even (r / ?u) \<le> 2 ^ 53" by (rule rhe_le)
  then have "real_of_int (round_half_even (r / ?u)) \<le> real_of_int (2 ^ 53)"
    by (rule of_int_le_iff [THEN iffD2])
  then have "real_of_int (round_half_even (r / ?u)) * ?u \<le> 2 ^ 53 * ?u"
    using u by simp
  then show ?thesis by (simp add: round_magnitude_def p2_53 [of "binade r"] ulp_def)
qed

lemma round_magnitude_lower:
  assumes "0 < r" "- 1022 < binade r"
  shows "2 powi (binade r) \<le> round_magnitude r"
proof -
  let ?u = "ulp r"
  have u: "0 < ?u" by (rule ulp_pos)
  have "2 ^ 52 * ?u \<le> r" using binade_lower [OF assms] by (simp add: p2_52 [of "binade r"] ulp_def)
  then have "of_int (2 ^ 52) \<le> r / ?u" using u by (simp add: field_simps)
  then have "2 ^ 52 \<le> round_half_even (r / ?u)" by (rule rhe_ge)
  then have "real_of_int (2 ^ 52) \<le> real_of_int (round_half_even (r / ?u))"
    by (rule of_int_le_iff [THEN iffD2])
  then have "2 ^ 52 * ?u \<le> real_of_int (round_half_even (r / ?u)) * ?u"
    using u by simp
  then show ?thesis by (simp add: round_magnitude_def p2_52 [of "binade r"] ulp_def)
qed

lemma round_magnitude_mono:
  assumes "0 \<le> a" "a \<le> b"
  shows "round_magnitude a \<le> round_magnitude b"
proof (cases "a = 0")
  case True
  with assms round_magnitude_nonneg [of b] show ?thesis by (simp add: round_magnitude_0)
next
  case False
  with assms have a: "0 < a" and b: "0 < b" by simp_all
  have m: "binade a \<le> binade b" using a assms(2) by (rule binade_mono)
  show ?thesis
  proof (cases "binade a = binade b")
    case True
    then have u: "ulp a = ulp b" by (simp add: ulp_def)
    have "a / ulp b \<le> b / ulp b" using assms(2) ulp_pos [of b] by (simp add: divide_right_mono)
    then have "round_half_even (a / ulp b) \<le> round_half_even (b / ulp b)" by (rule rhe_mono)
    then have "real_of_int (round_half_even (a / ulp b)) \<le> real_of_int (round_half_even (b / ulp b))"
      by (rule of_int_le_iff [THEN iffD2])
    then show ?thesis using ulp_pos [of b] by (simp add: round_magnitude_def u)
  next
    case False
    with m have lt: "binade a + 1 \<le> binade b" by simp
    have "round_magnitude a \<le> 2 powi (binade a + 1)" using a by (rule round_magnitude_upper)
    also have "(2::real) powi (binade a + 1) \<le> 2 powi (binade b)" using lt by (simp only: p2_le_iff)
    also have "\<dots> \<le> round_magnitude b"
      using b lt binade_ge [of a] by (intro round_magnitude_lower) simp_all
    finally show ?thesis .
  qed
qed

lemma round_nearest_mono: "a \<le> b \<Longrightarrow> round_nearest a \<le> round_nearest b"
proof -
  assume le: "a \<le> b"
  show ?thesis
  proof (cases "a < 0")
    case an: True
    show ?thesis
    proof (cases "b < 0")
      case True
      with le have "round_magnitude (- b) \<le> round_magnitude (- a)"
        by (intro round_magnitude_mono) simp_all
      with an True show ?thesis by (simp add: round_nearest_def)
    next
      case False
      then have "0 \<le> round_magnitude b" by (intro round_magnitude_nonneg) simp
      moreover have "0 \<le> round_magnitude (- a)" using an by (intro round_magnitude_nonneg) simp
      ultimately show ?thesis using an False by (simp add: round_nearest_def)
    qed
  next
    case False
    with le have "round_magnitude a \<le> round_magnitude b"
      by (intro round_magnitude_mono) simp_all
    with False le show ?thesis by (simp add: round_nearest_def)
  qed
qed

subsection \<open>Values of the format are rounded to themselves\<close>

lemma round_magnitude_exact:
  assumes "0 \<le> n" "binade (of_int n * 2 powi j) \<le> j + 52"
  shows "round_magnitude (of_int n * 2 powi j) = of_int n * 2 powi j"
proof -
  define y where "y = real_of_int n * 2 powi j"
  define u where "u = ulp y"
  define d where "d = j + 52 - binade y"
  from assms(2) have d: "0 \<le> d" by (simp add: d_def y_def)
  have u: "0 < u" unfolding u_def by (rule ulp_pos)
  have "j = (binade y - 52) + d" by (simp add: d_def)
  then have "(2::real) powi j = 2 powi ((binade y - 52) + d)" by (rule arg_cong)
  also have "\<dots> = 2 powi (binade y - 52) * 2 powi d" by (rule p2_add)
  finally have pj: "(2::real) powi j = u * 2 powi d" by (simp add: u_def ulp_def)
  have pd: "(2::real) powi d = of_int (2 ^ nat d)"
    using d by (simp add: power_int_def)
  have yu: "y = of_int (n * 2 ^ nat d) * u"
    by (simp add: y_def pj pd)
  then have "y / u = of_int (n * 2 ^ nat d)" using u by simp
  then have "round_half_even (y / u) = n * 2 ^ nat d" by (simp only: rhe_of_int)
  then have "round_magnitude y = of_int (n * 2 ^ nat d) * u"
    by (simp only: round_magnitude_def u_def)
  with yu have "round_magnitude y = y" by simp
  then show ?thesis by (simp only: y_def)
qed

lemma round_magnitude_idem:
  assumes "0 \<le> r"
  shows "round_magnitude (round_magnitude r) = round_magnitude r"
proof (cases "r = 0")
  case True
  then show ?thesis by (simp add: round_magnitude_0)
next
  case False
  with assms have r: "0 < r" by simp
  let ?e = "binade r"
  let ?n = "round_half_even (r / ulp r)"
  let ?y = "round_magnitude r"
  have y: "?y = of_int ?n * 2 powi (?e - 52)" by (simp add: round_magnitude_def ulp_def)
  have n0: "0 \<le> ?n" using r ulp_pos [of r] by (intro rhe_ge) simp
  have up: "?y \<le> 2 powi (?e + 1)" using r by (rule round_magnitude_upper)
  show ?thesis
  proof (cases "?y = 0")
    case True
    then show ?thesis by (simp add: round_magnitude_0)
  next
    case False
    with round_magnitude_nonneg [OF assms] have ypos: "0 < ?y" by simp
    show ?thesis
    proof (cases "?y < 2 powi (?e + 1)")
      case True
      have "binade ?y \<le> ?e" using ypos True binade_ge [of r] by (rule binade_le)
      then have "binade (of_int ?n * 2 powi (?e - 52)) \<le> (?e - 52) + 52" by (simp add: y [symmetric])
      from round_magnitude_exact [OF n0 this] show ?thesis by (simp only: y [symmetric])
    next
      case False
      with up have eq: "?y = 2 powi (?e + 1)" by simp
      have "(2::real) powi (?e + 1) = of_int (2 ^ 52) * 2 powi (?e - 51)"
      proof -
        have "?e + 1 = 52 + (?e - 51)" by simp
        then have "(2::real) powi (?e + 1) = 2 powi (52 + (?e - 51))" by (rule arg_cong)
        also have "\<dots> = 2 powi 52 * 2 powi (?e - 51)" by (rule p2_add)
        finally show ?thesis by simp
      qed
      with eq have y2: "?y = of_int (2 ^ 52) * 2 powi (?e - 51)" by simp
      have "?y < 2 powi ((?e + 1) + 1)" unfolding eq by (simp only: p2_less_iff)
      with ypos have "binade ?y \<le> ?e + 1" using binade_ge [of r] by (intro binade_le) simp_all
      then have "binade ?y \<le> (?e - 51) + 52" by linarith
      then have "binade (of_int (2 ^ 52) * 2 powi (?e - 51)) \<le> (?e - 51) + 52"
        by (simp only: y2 [symmetric])
      from round_magnitude_exact [OF _ this] show ?thesis by (simp only: y2 [symmetric]) simp
    qed
  qed
qed

lemma round_nearest_idem: "round_nearest (round_nearest r) = round_nearest r"
proof (cases "r < 0")
  case True
  let ?m = "round_magnitude (- r)"
  have m0: "0 \<le> ?m" using True by (intro round_magnitude_nonneg) simp
  have idem: "round_magnitude ?m = ?m" using True by (intro round_magnitude_idem) simp
  show ?thesis
  proof (cases "?m = 0")
    case True
    with \<open>r < 0\<close> show ?thesis by (simp add: round_nearest_def round_magnitude_0)
  next
    case False
    with m0 have "- ?m < 0" by simp
    with \<open>r < 0\<close> idem show ?thesis by (simp add: round_nearest_def)
  qed
next
  case False
  then have "0 \<le> round_magnitude r" by (intro round_magnitude_nonneg) simp
  moreover have "round_magnitude (round_magnitude r) = round_magnitude r"
    using False by (intro round_magnitude_idem) simp
  ultimately show ?thesis using False by (simp add: round_nearest_def)
qed

lemma round_nearest_0: "round_nearest 0 = 0"
  by (simp add: round_nearest_def round_magnitude_0)

lemma round_nearest_int:
  assumes "\<bar>n\<bar> < 2 ^ 53"
  shows "round_nearest (of_int n) = of_int n"
proof -
  have mag: "round_magnitude (of_int m) = of_int m" if "0 \<le> m" "m < 2 ^ 53" for m :: int
  proof (cases "m = 0")
    case True
    then show ?thesis by (simp add: round_magnitude_0)
  next
    case False
    with that have pos: "0 < real_of_int m" by simp
    have "real_of_int m < real_of_int (2 ^ 53)" using that(2) by (rule of_int_less_iff [THEN iffD2])
    then have "real_of_int m < 2 powi (52 + 1)" by simp
    with pos have "binade (real_of_int m) \<le> 52" by (intro binade_le) simp_all
    then have "binade (of_int m * 2 powi 0) \<le> 0 + 52" by simp
    from round_magnitude_exact [OF that(1) this] show ?thesis by simp
  qed
  show ?thesis
  proof (cases "n < 0")
    case True
    with assms mag [of "- n"] show ?thesis by (simp add: round_nearest_def)
  next
    case False
    with assms mag [of n] show ?thesis by (simp add: round_nearest_def)
  qed
qed

subsection \<open>The operations on \<open>qreal\<close>\<close>

lemma qle_trans: "qle x y \<Longrightarrow> qle y z \<Longrightarrow> qle x z"
  by (cases x; cases y; cases z) simp_all

lemma qle_refl_iff: "qle x x = (x \<noteq> NaN)"
  by (cases x) simp_all

lemma qlt_iff: "qlt x y = (qle x y \<and> \<not> qle y x)"
  by (cases x; cases y) auto

lemma not_qle_iff: "x \<noteq> NaN \<Longrightarrow> y \<noteq> NaN \<Longrightarrow> (\<not> qle x y) = qlt y x"
  by (cases x; cases y) auto

lemma qlt_qle_trans: "qlt x y \<Longrightarrow> qle y z \<Longrightarrow> qlt x z"
  by (cases x; cases y; cases z) simp_all

lemma qle_qlt_trans: "qle x y \<Longrightarrow> qlt y z \<Longrightarrow> qlt x z"
  by (cases x; cases y; cases z) simp_all

lemma round64_cases:
  "round64 r = (if 2 ^ 1024 \<le> round_nearest r then PInf
                else if round_nearest r \<le> - (2 ^ 1024) then NInf
                else Fin (round_nearest r))"
  by (simp only: round64_def Let_def)

lemma round64_mono: "a \<le> b \<Longrightarrow> qle (round64 a) (round64 b)"
proof -
  assume "a \<le> b"
  then have m: "round_nearest a \<le> round_nearest b" by (rule round_nearest_mono)
  have t: "- (2 ^ 1024) < (2::real) ^ 1024" by simp
  define T :: real where "T = 2 ^ 1024"
  from t have T: "- T < T" by (simp only: T_def)
  from m T show ?thesis
    unfolding round64_cases T_def [symmetric] by auto
qed

lemma round64_idem: "round64 r = Fin y \<Longrightarrow> round64 y = Fin y"
proof -
  assume a: "round64 r = Fin y"
  define T :: real where "T = 2 ^ 1024"
  from a have y: "y = round_nearest r" and b: "\<not> T \<le> y" "\<not> y \<le> - T"
    unfolding round64_cases T_def [symmetric] by (auto split: if_splits)
  from y have "round_nearest y = y" by (simp only: round_nearest_idem)
  with b show ?thesis unfolding round64_cases T_def [symmetric] by simp
qed

lemma round64_0: "round64 0 = Fin 0"
  unfolding round64_cases round_nearest_0 by simp

lemma round64_of_int: "\<bar>n\<bar> < 2 ^ 53 \<Longrightarrow> round64 (of_int n) = Fin (of_int n)"
proof -
  assume a: "\<bar>n\<bar> < 2 ^ 53"
  define T :: real where "T = 2 ^ 1024"
  have "(2::real) ^ 53 \<le> 2 ^ 1024" by (rule power_increasing) simp_all
  then have T: "2 ^ 53 \<le> T" by (simp only: T_def)
  have "\<bar>real_of_int n\<bar> < real_of_int (2 ^ 53)"
    using a by (simp only: of_int_abs [symmetric] of_int_less_iff)
  then have "\<bar>real_of_int n\<bar> < 2 ^ 53" by (simp only: of_int_power of_int_numeral)
  with T have "\<not> T \<le> real_of_int n" "\<not> real_of_int n \<le> - T" by linarith+
  then show ?thesis
    unfolding round64_cases T_def [symmetric] round_nearest_int [OF a] by simp
qed

lemma round64_Ints:
  "r \<in> \<int> \<Longrightarrow> \<bar>r\<bar> < 9007199254740992 \<Longrightarrow> round64 r = Fin r"
proof -
  assume "r \<in> \<int>" and b: "\<bar>r\<bar> < 9007199254740992"
  then obtain n where n: "r = of_int n" by (auto elim: Ints_cases)
  with b have "\<bar>real_of_int n\<bar> < real_of_int 9007199254740992" by simp
  then have "\<bar>n\<bar> < 9007199254740992" by (simp only: of_int_abs [symmetric] of_int_less_iff)
  then have "\<bar>n\<bar> < 2 ^ 53" by simp
  from round64_of_int [OF this] n show ?thesis by simp
qed

lemma is_double_qadd: "is_double (qadd x y)"
proof (cases "qadd x y")
  case (Fin r)
  then obtain a b where "x = Fin a" "y = Fin b" by (cases x; cases y) simp_all
  with Fin have "round64 (a + b) = Fin r" by simp
  then have "round64 r = Fin r" by (rule round64_idem)
  with Fin show ?thesis by (simp add: is_double_def)
qed (simp_all add: is_double_def)

lemma is_double_0: "is_double (Fin 0)"
  by (simp add: is_double_def round64_0)

lemma qadd_nonneg:
  assumes "is_double x" "qle (Fin 0) x" "qle (Fin 0) w"
  shows "qle x (qadd x w) \<and> qle (Fin 0) (qadd x w)"
proof (cases x)
  case (Fin a)
  with assms have a: "0 \<le> a" "round64 a = Fin a" by (simp_all add: is_double_def)
  show ?thesis
  proof (cases w)
    case (Fin b)
    with assms have b: "0 \<le> b" by simp
    from b have "qle (round64 a) (round64 (a + b))" by (intro round64_mono) simp
    moreover from a b have "qle (round64 0) (round64 (a + b))" by (intro round64_mono) simp
    ultimately show ?thesis using \<open>x = Fin a\<close> Fin a by (simp add: round64_0)
  next
    case PInf
    with \<open>x = Fin a\<close> show ?thesis by simp
  next
    case NInf
    with assms show ?thesis by simp
  next
    case NaN
    with assms show ?thesis by simp
  qed
next
  case PInf
  with assms show ?thesis by (cases w) simp_all
next
  case NInf
  with assms show ?thesis by simp
next
  case NaN
  with assms show ?thesis by simp
qed

subsection \<open>Rounding at given values\<close>

lemma round64_bracket:
  assumes "0 < r" "2 powi e \<le> r" "r < 2 powi (e + 1)" "- 1022 \<le> e" "e < 1023"
  shows "round64 r = Fin (of_int (round_half_even (r / 2 powi (e - 52))) * 2 powi (e - 52))"
proof -
  have i: "ilog2 r = e" using assms(1-3) by (rule ilog2_unique)
  have b: "binade r = e" using assms(1,4) by (simp add: binade_def i)
  have rn: "round_nearest r = round_magnitude r" using assms(1) by (simp add: round_nearest_def)
  have m: "round_magnitude r = of_int (round_half_even (r / 2 powi (e - 52))) * 2 powi (e - 52)"
    by (simp add: round_magnitude_def ulp_def b)
  define T :: real where "T = 2 ^ 1024"
  have "round_magnitude r \<le> 2 powi (e + 1)" using round_magnitude_upper [OF assms(1)] b by simp
  also have "(2::real) powi (e + 1) < 2 powi 1024" using assms(5) by (simp only: p2_less_iff)
  also have "(2::real) powi 1024 = T" by (simp add: T_def)
  finally have 1: "\<not> T \<le> round_magnitude r" by simp
  have "0 \<le> round_magnitude r" using assms(1) by (intro round_magnitude_nonneg) simp
  moreover have "0 < T" by (simp add: T_def)
  ultimately have 2: "\<not> round_magnitude r \<le> - T" by linarith
  from 1 2 show ?thesis
    unfolding round64_cases T_def [symmetric] rn by (simp add: m)
qed

lemma rhe_half_odd: "round_half_even (10808639105689191 / 2) = 5404319552844596"
  by (simp add: round_half_even_def Let_def)

lemma qadd_tenths: "qadd dbl_0_1 dbl_0_2 = dbl_0_3"
proof -
  have "round64 (10808639105689191 / 36028797018963968)
        = Fin (of_int (round_half_even ((10808639105689191 / 36028797018963968) / 2 powi (- 2 - 52))) * 2 powi (- 2 - 52))"
    by (rule round64_bracket) simp_all
  also have "(10808639105689191 / 36028797018963968) / 2 powi (- 2 - 52) = (10808639105689191 / 2 :: real)"
    by simp
  finally have "round64 (10808639105689191 / 36028797018963968) = Fin (1351079888211149 / 4503599627370496)"
    by (simp add: rhe_half_odd)
  moreover have "(3602879701896397 / 36028797018963968 + 3602879701896397 / 18014398509481984 :: real)
     = 10808639105689191 / 36028797018963968" by simp
  ultimately show ?thesis by (simp only: dbl_0_1_def dbl_0_2_def dbl_0_3_def qadd.simps)
qed

lemma round64_tenth: "round64 (1 / 10) = dbl_0_1"
proof -
  have "round64 (1 / 10)
        = Fin (of_int (round_half_even ((1 / 10) / 2 powi (- 4 - 52))) * 2 powi (- 4 - 52))"
    by (rule round64_bracket) simp_all
  also have "(1 / 10) / 2 powi (- 4 - 52) = (72057594037927936 / 10 :: real)" by simp
  also have "round_half_even (72057594037927936 / 10) = 7205759403792794"
    by (simp add: round_half_even_def Let_def)
  finally show ?thesis by (simp add: dbl_0_1_def)
qed

section \<open>Properties of the hit test\<close>

lemma roleIndexAt_loop_lower: "index \<le> roleIndexAt_loop widths px roles index x"
proof (induction roles arbitrary: index x)
  case Nil
  show ?case by simp
next
  case (Cons role roles)
  have "index + 1 \<le> roleIndexAt_loop widths px roles (index + 1) (qadd x (hash_value widths role))"
    by (rule Cons.IH)
  then show ?case by (simp add: Let_def)
qed

lemma roleIndexAt_loop_lower_Cons:
  "index + 1 \<le> roleIndexAt_loop widths px (role # roles) index x"
  using roleIndexAt_loop_lower [of "index + 1" widths px roles "qadd x (hash_value widths role)"]
  by (simp add: Let_def)

lemma roleIndexAt_loop_upper:
  "roleIndexAt_loop widths px roles index x \<le> index + int (length roles)"
proof (induction roles arbitrary: index x)
  case Nil
  show ?case by simp
next
  case (Cons role roles)
  have "roleIndexAt_loop widths px roles (index + 1) (qadd x (hash_value widths role))
          \<le> index + 1 + int (length roles)"
    by (rule Cons.IH)
  then show ?case by (simp add: Let_def)
qed

lemma roleIndexAt_loop_mono:
  "qle px1 px2 \<Longrightarrow>
   roleIndexAt_loop widths px1 roles index x \<le> roleIndexAt_loop widths px2 roles index x"
proof (induction roles arbitrary: index x)
  case Nil
  show ?case by simp
next
  case (Cons role roles)
  let ?x' = "qadd x (hash_value widths role)"
  show ?case
  proof (cases "qle px2 ?x'")
    case True
    with Cons.prems have "qle px1 ?x'" by (rule qle_trans)
    with True show ?thesis by (simp add: Let_def)
  next
    case False
    show ?thesis
    proof (cases "qle px1 ?x'")
      case True
      with False roleIndexAt_loop_lower [of "index + 1" widths px2 roles ?x']
      show ?thesis by (simp add: Let_def)
    next
      case F2: False
      with False Cons.IH [OF Cons.prems, of "index + 1" ?x']
      show ?thesis by (simp add: Let_def)
    qed
  qed
qed

lemma good_0: "good (Fin 0)"
  by (simp add: good_def is_double_0)

lemma good_qadd: "good x \<Longrightarrow> qle (Fin 0) w \<Longrightarrow> good (qadd x w) \<and> qle x (qadd x w)"
  using qadd_nonneg [of x w] by (simp add: good_def is_double_qadd)

lemma good_not_NaN: "good x \<Longrightarrow> x \<noteq> NaN"
  by (auto simp: good_def)

lemma foldl_qadd_good:
  "good x \<Longrightarrow> list_all (\<lambda>w. qle (Fin 0) w) ws \<Longrightarrow> good (foldl qadd x ws) \<and> qle x (foldl qadd x ws)"
proof (induction ws arbitrary: x)
  case Nil
  then show ?case by (simp add: qle_refl_iff good_not_NaN)
next
  case (Cons w ws)
  from Cons.prems have w: "qle (Fin 0) w" and ws: "list_all (\<lambda>w. qle (Fin 0) w) ws" by simp_all
  from good_qadd [OF Cons.prems(1) w] have g: "good (qadd x w)" and le: "qle x (qadd x w)"
    by simp_all
  from Cons.IH [OF g ws] have "good (foldl qadd (qadd x w) ws)"
    and "qle (qadd x w) (foldl qadd (qadd x w) ws)" by simp_all
  with le show ?case by (auto intro: qle_trans)
qed

lemma list_all_widths:
  "list_all (\<lambda>role. qle (Fin 0) (hash_value widths role)) roles \<Longrightarrow>
   list_all (\<lambda>w. qle (Fin 0) w) (map (hash_value widths) (take k roles))"
  by (auto simp: list_all_iff dest: in_set_takeD)

lemma edge_good:
  "list_all (\<lambda>role. qle (Fin 0) (hash_value widths role)) roles \<Longrightarrow> good (edge widths roles k)"
  unfolding edge_def using foldl_qadd_good [OF good_0 list_all_widths] by blast

lemma roleIndexAt_loop_in_range:
  "list_all (\<lambda>role. qle (Fin 0) (hash_value widths role)) roles \<Longrightarrow> good x \<Longrightarrow>
   qlt x px \<Longrightarrow> qle px (foldl qadd x (map (hash_value widths) roles)) \<Longrightarrow>
   (roleIndexAt_loop widths px roles index x = index + 1 + int i) =
   (qlt (foldl qadd x (map (hash_value widths) (take i roles))) px \<and>
    qle px (foldl qadd x (map (hash_value widths) (take (Suc i) roles))))"
proof (induction roles arbitrary: index x i)
  case Nil
  then have "qlt x x" by (simp add: qlt_qle_trans)
  then show ?case by (simp add: qlt_iff)
next
  case (Cons role roles)
  let ?w = "hash_value widths role"
  let ?x' = "qadd x ?w"
  from Cons.prems(1) have nn: "list_all (\<lambda>role. qle (Fin 0) (hash_value widths role)) roles"
    and w0: "qle (Fin 0) ?w" by simp_all
  from good_qadd [OF Cons.prems(2) w0] have g': "good ?x'" and le': "qle x ?x'" by simp_all
  from Cons.prems(3) have px: "px \<noteq> NaN" by (cases x; cases px) simp_all
  show ?case
  proof (cases "qle px ?x'")
    case True
    then have res: "roleIndexAt_loop widths px (role # roles) index x = index + 1"
      by (simp add: Let_def)
    show ?thesis
    proof (cases i)
      case 0
      with res True Cons.prems(3) show ?thesis by simp
    next
      case (Suc j)
      have "qle ?x' (foldl qadd ?x' (map (hash_value widths) (take j roles)))"
        using foldl_qadd_good [OF g' list_all_widths [OF nn]] by blast
      with True have "qle px (foldl qadd ?x' (map (hash_value widths) (take j roles)))"
        by (rule qle_trans)
      then have "\<not> qlt (foldl qadd ?x' (map (hash_value widths) (take j roles))) px"
        by (simp add: qlt_iff)
      with res Suc show ?thesis by simp
    qed
  next
    case False
    then have res: "roleIndexAt_loop widths px (role # roles) index x
                    = roleIndexAt_loop widths px roles (index + 1) ?x'"
      by (simp add: Let_def)
    from False px good_not_NaN [OF g'] have lt: "qlt ?x' px" by (simp add: not_qle_iff)
    from Cons.prems(4) have le: "qle px (foldl qadd ?x' (map (hash_value widths) roles))"
      by simp
    show ?thesis
    proof (cases i)
      case 0
      from False le have "roles \<noteq> []" by auto
      then obtain r rs where "roles = r # rs" by (cases roles) auto
      with roleIndexAt_loop_lower_Cons [of "index + 1" widths px r rs ?x']
      have "index + 2 \<le> roleIndexAt_loop widths px roles (index + 1) ?x'" by simp
      with res 0 False show ?thesis by simp
    next
      case (Suc j)
      from Cons.IH [OF nn g' lt le, of "index + 1" j] res Suc
      show ?thesis by (simp add: add.assoc)
    qed
  qed
qed

lemma roleIndexAt_loop_beyond:
  "list_all (\<lambda>role. qle (Fin 0) (hash_value widths role)) roles \<Longrightarrow> good x \<Longrightarrow>
   qlt (foldl qadd x (map (hash_value widths) roles)) px \<Longrightarrow>
   roleIndexAt_loop widths px roles index x = index + int (length roles)"
proof (induction roles arbitrary: index x)
  case Nil
  show ?case by simp
next
  case (Cons role roles)
  let ?w = "hash_value widths role"
  let ?x' = "qadd x ?w"
  from Cons.prems(1) have nn: "list_all (\<lambda>role. qle (Fin 0) (hash_value widths role)) roles"
    and w0: "qle (Fin 0) ?w" by simp_all
  from good_qadd [OF Cons.prems(2) w0] have g': "good ?x'" by simp
  from Cons.prems(3) have lt: "qlt (foldl qadd ?x' (map (hash_value widths) roles)) px" by simp
  have "qle ?x' (foldl qadd ?x' (map (hash_value widths) roles))"
    using foldl_qadd_good [OF g' list_all_widths [OF nn, of "length roles"]] by simp
  then have "qlt ?x' px" using lt by (rule qle_qlt_trans)
  then have "\<not> qle px ?x'" by (simp add: qlt_iff)
  with Cons.IH [OF nn g' lt, of "index + 1"] show ?case by (simp add: Let_def)
qed

lemma roleIndexAt_loop_first:
  assumes "qle px (Fin 0)" "qle (Fin 0) (hash_value widths role)"
  shows "roleIndexAt_loop widths px (role # roles) index (Fin 0) = index + 1"
proof -
  from good_qadd [OF good_0 assms(2)] have "qle (Fin 0) (qadd (Fin 0) (hash_value widths role))"
    by simp
  with assms(1) have "qle px (qadd (Fin 0) (hash_value widths role))" by (rule qle_trans)
  then show ?thesis by (simp add: Let_def)
qed

lemma isAboveRoleGrip_loop_sum:
  "0 \<le> i \<Longrightarrow> i \<le> roleIndex + 1 \<Longrightarrow> roleIndex < int (length roles) \<Longrightarrow>
   isAboveRoleGrip_loop widths roles roleIndex i x =
     Some (foldl qadd x
            (map (hash_value widths) (take (nat (roleIndex + 1 - i)) (drop (nat i) roles))))"
proof (induction widths roles roleIndex i x rule: isAboveRoleGrip_loop.induct)
  case (1 widths roles roleIndex i x)
  show ?case
  proof (cases "i \<le> roleIndex")
    case True
    with "1.prems" have at: "list_at roles i = Some (roles ! nat i)"
      by (simp add: list_at_def)
    from True "1.prems" have lt: "nat i < length roles" by simp
    from "1.prems" have n: "nat (i + 1) = Suc (nat i)" by simp
    from True have m: "nat (roleIndex + 1 - i) = Suc (nat (roleIndex + 1 - (i + 1)))" by simp
    have d: "drop (nat i) roles = roles ! nat i # drop (Suc (nat i)) roles"
      using lt by (rule Cons_nth_drop_Suc [symmetric])
    from True "1.prems" have
      "isAboveRoleGrip_loop widths roles roleIndex (i + 1) (qadd x (hash_value widths (roles ! nat i)))
       = Some (foldl qadd (qadd x (hash_value widths (roles ! nat i)))
                (map (hash_value widths)
                  (take (nat (roleIndex + 1 - (i + 1))) (drop (nat (i + 1)) roles))))"
      by (intro "1.IH" [OF True at]) simp_all
    moreover have "take (nat (roleIndex + 1 - i)) (drop (nat i) roles)
          = roles ! nat i # take (nat (roleIndex + 1 - (i + 1))) (drop (nat (i + 1)) roles)"
      by (subst d) (simp only: m n take_Suc_Cons)
    ultimately show ?thesis using True at
      by (subst isAboveRoleGrip_loop.simps) simp
  next
    case False
    with "1.prems" have "i = roleIndex + 1" by simp
    with False show ?thesis
      by (subst isAboveRoleGrip_loop.simps) simp
  qed
qed

section \<open>The concrete inputs evaluated\<close>

lemma abc_roles: "m_visibleRoles abc_header = [''A'', ''B'', ''C'']"
  by (simp add: abc_header_def setVisibleRoles_def setVisibleRolesWidths_def update_def)

lemma abc_hv:
  "hash_value (m_visibleRolesWidths abc_header) ''A'' = Fin 50"
  "hash_value (m_visibleRolesWidths abc_header) ''B'' = Fin 30"
  "hash_value (m_visibleRolesWidths abc_header) ''C'' = Fin 20"
  by (simp_all add: abc_header_def setVisibleRoles_def setVisibleRolesWidths_def update_def
        hash_value_def)

lemma abc_facts:
  "nonneg_widths abc_header"
  "totalWidth abc_header = Fin 100"
  "leftEdge abc_header 0 = Fin 0" "rightEdge abc_header 0 = Fin 50"
  "leftEdge abc_header (Suc 0) = Fin 50" "rightEdge abc_header (Suc 0) = Fin 80"
  "leftEdge abc_header 2 = Fin 80" "rightEdge abc_header 2 = Fin 100"
  by (simp_all add: nonneg_widths_def totalWidth_def leftEdge_def rightEdge_def edge_def
        abc_roles abc_hv numeral_2_eq_2 round64_Ints)

lemma abc_exact:
  "exact_edge abc_header 2 = Some 80"
  "exact_edge abc_header 3 = Some 100"
  by (simp_all add: exact_edge_def abc_roles abc_hv numeral_2_eq_2 numeral_3_eq_3)

lemma abc_at:
  "roleIndexAt abc_header (Fin 49, Fin 0) = 0"
  "roleIndexAt abc_header (Fin 50, Fin 0) = 0"
  "roleIndexAt abc_header (Fin 51, Fin 0) = 1"
  "roleIndexAt abc_header (Fin 100, Fin 0) = 2"
  "roleIndexAt abc_header (Fin 150, Fin 0) = 2"
  "roleIndexAt abc_header (Fin 0, Fin 0) = 0"
  "roleIndexAt abc_header (Fin (- 5), Fin 0) = 0"
  by (simp_all add: roleIndexAt_def abc_roles abc_hv pos_x_def round64_Ints)

lemma plain_host_fields:
  "PM_HeaderGripMargin plain_host = 4"
  "size_width plain_host = Fin 200"
  "size_height plain_host = Fin 20"
  "isEnabled plain_host"
  "window_isActiveWindow plain_host"
  "roleDescription plain_host m role = role"
  "elidedText plain_host txt w = txt"
  "toRect plain_host (x, y, w', hh) =
     (qreal_to_int (- 2147483648) x, qreal_to_int (- 2147483648) y,
      qreal_to_int (- 2147483648) w', qreal_to_int (- 2147483648) hh)"
  "widget_option_state plain_host = {State_Enabled}"
  "int_conversion_overflow plain_host = - 2147483648"
  by (simp_all add: plain_host_def)

lemma tenths_roles: "m_visibleRoles tenths_header = [''A'', ''B'', ''C'']"
  by (simp add: tenths_header_def setVisibleRoles_def setVisibleRolesWidths_def update_def)

lemma tenths_hv:
  "hash_value (m_visibleRolesWidths tenths_header) ''A'' = dbl_0_1"
  "hash_value (m_visibleRolesWidths tenths_header) ''B'' = dbl_0_2"
  "hash_value (m_visibleRolesWidths tenths_header) ''C'' = Fin 0"
  by (simp_all add: tenths_header_def setVisibleRoles_def setVisibleRolesWidths_def update_def
        hash_value_def)

lemma qadd_0_tenth: "qadd (Fin 0) dbl_0_1 = dbl_0_1"
proof -
  have "round64 (3602879701896397 / 36028797018963968) = Fin (3602879701896397 / 36028797018963968)"
    using round64_tenth by (intro round64_idem [of "1 / 10"]) (simp only: dbl_0_1_def)
  then show ?thesis by (simp add: dbl_0_1_def)
qed

lemma qadd_3_tenths_0: "qadd dbl_0_3 (Fin 0) = dbl_0_3"
proof -
  have "is_double (qadd dbl_0_1 dbl_0_2)" by (rule is_double_qadd)
  then have "round64 (1351079888211149 / 4503599627370496) = Fin (1351079888211149 / 4503599627370496)"
    by (simp add: qadd_tenths is_double_def dbl_0_3_def)
  then show ?thesis by (simp add: dbl_0_3_def)
qed

lemma tenths_edges:
  "leftEdge tenths_header (Suc 0) = dbl_0_1"
  "rightEdge tenths_header (Suc 0) = dbl_0_3"
  "totalWidth tenths_header = dbl_0_3"
  by (simp_all add: totalWidth_def leftEdge_def rightEdge_def edge_def tenths_roles tenths_hv
        qadd_0_tenth qadd_tenths qadd_3_tenths_0)

lemma tenths_nonneg: "nonneg_widths tenths_header"
  by (simp add: nonneg_widths_def tenths_roles tenths_hv dbl_0_1_def dbl_0_2_def)

lemma tenths_exact:
  "exact_edge tenths_header 2 = Some (10808639105689191 / 36028797018963968)"
  "exact_edge tenths_header 3 = Some (10808639105689191 / 36028797018963968)"
  by (simp_all add: exact_edge_def tenths_roles tenths_hv numeral_2_eq_2 numeral_3_eq_3
        dbl_0_1_def dbl_0_2_def)

lemma tenths_at:
  "roleIndexAt tenths_header (Fin (1351079888211149 / 4503599627370496), Fin 0) = 1"
proof -
  have "roleIndexAt tenths_header (dbl_0_3, Fin 0) = 1"
    by (simp add: roleIndexAt_def tenths_roles tenths_hv pos_x_def qadd_0_tenth qadd_tenths)
      (simp add: dbl_0_1_def dbl_0_3_def)
  then show ?thesis by (simp only: dbl_0_3_def)
qed

section \<open>The claims about the hit test\<close>

text \<open>
  C1, as the specification states it, fails outside the columns: at \<open>x = 150\<close> the example
  header answers column 2, although 150 is not within the sums that bound column 2 (80
  and 100).
\<close>

theorem roleIndexAt_hit_counterexample:
  "roleIndexAt abc_header (Fin 150, Fin 0) = 2 \<and> \<not> spec_column_range abc_header 150 2"
  by (simp add: abc_at spec_column_range_def abc_exact numeral_3_eq_3 [symmetric])

text \<open>
  C1 (amended): for non-negative widths and a pointer position \<open>x\<close> with
  \<open>0 < x \<le> total width\<close>, \<open>roleIndexAt\<close> returns \<open>i\<close> exactly when the running sum of the
  widths of the columns before \<open>i\<close> is below \<open>x\<close> and \<open>x\<close> is at most the running sum up to
  and including column \<open>i\<close>. The sums, the total width among them, are the ones the header
  accumulates in \<open>qreal\<close> arithmetic (\<open>edge\<close>). A position on a boundary belongs to the
  column that ends there.
\<close>

theorem roleIndexAt_hit:
  "nonneg_widths s \<Longrightarrow> qlt (Fin 0) (pos_x pos) \<Longrightarrow> qle (pos_x pos) (totalWidth s) \<Longrightarrow>
   (roleIndexAt s pos = int i) =
   (qlt (leftEdge s i) (pos_x pos) \<and> qle (pos_x pos) (rightEdge s i))"
  using roleIndexAt_loop_in_range
          [of "m_visibleRolesWidths s" "m_visibleRoles s" "Fin 0" "pos_x pos" "- 1" i]
  by (simp add: roleIndexAt_def nonneg_widths_def totalWidth_def leftEdge_def rightEdge_def
        edge_def good_0)

theorem roleIndexAt_hit_witness:
  "nonneg_widths abc_header \<and> qlt (Fin 0) (pos_x (Fin 50, Fin 0)) \<and>
   qle (pos_x (Fin 50, Fin 0)) (totalWidth abc_header) \<and>
   roleIndexAt abc_header (Fin 50, Fin 0) = 0 \<and> roleIndexAt abc_header (Fin 50, Fin 0) \<noteq> 1 \<and>
   nonneg_widths tenths_header \<and> qlt (Fin 0) (pos_x (dbl_0_3, Fin 0)) \<and>
   qle (pos_x (dbl_0_3, Fin 0)) (totalWidth tenths_header) \<and>
   roleIndexAt tenths_header (dbl_0_3, Fin 0) = 1"
  using roleIndexAt_hit [of abc_header "(Fin 50, Fin 0)" 0]
        roleIndexAt_hit [of abc_header "(Fin 50, Fin 0)" 1]
        roleIndexAt_hit [of tenths_header "(dbl_0_3, Fin 0)" 1]
  by (simp add: abc_facts tenths_nonneg tenths_edges pos_x_def)
    (simp add: dbl_0_1_def dbl_0_3_def)

text \<open>
  C2, as the specification states it, fails where a running sum is rounded: with columns
  of widths 0.1 and 0.2 the header's right edge of column 1 is 0.3000000000000000444, above
  the exact sum of the two widths, and a pointer at that position is over the grip
  although it is to the right of the exact sum.
\<close>

theorem isAboveRoleGrip_counterexample:
  "isAboveRoleGrip plain_host tenths_header
     (Fin (1351079888211149 / 4503599627370496), Fin 0) 1 = Some True \<and>
   \<not> spec_grip_range tenths_header 4 (1351079888211149 / 4503599627370496) 1"
proof -
  have l: "isAboveRoleGrip_loop (m_visibleRolesWidths tenths_header) (m_visibleRoles tenths_header)
             1 0 (Fin 0) = Some dbl_0_3"
    using isAboveRoleGrip_loop_sum
            [of 0 1 "m_visibleRoles tenths_header" "m_visibleRolesWidths tenths_header" "Fin 0"]
    by (simp add: tenths_roles tenths_hv numeral_2_eq_2 qadd_0_tenth qadd_tenths)
  have "qle (round64 (1351079888211149 / 4503599627370496 - 4)) (round64 0)"
    by (rule round64_mono) simp
  then have "qle (qsub dbl_0_3 (qreal_of_int 4)) (Fin 0)"
    by (simp add: qsub_def qreal_of_int_def round64_Ints dbl_0_3_def round64_0)
  moreover have "qle (Fin 0) dbl_0_3" by (simp add: dbl_0_3_def)
  ultimately have "qle (qsub dbl_0_3 (qreal_of_int 4)) dbl_0_3" by (rule qle_trans)
  with l have "isAboveRoleGrip plain_host tenths_header (dbl_0_3, Fin 0) 1 = Some True"
    by (simp add: isAboveRoleGrip_def plain_host_fields pos_x_def qge_def Let_def)
      (simp add: dbl_0_3_def)
  then show ?thesis
    by (simp add: dbl_0_3_def spec_grip_range_def tenths_exact numeral_2_eq_2 [symmetric])
qed

text \<open>
  C2 (amended): for a valid column index \<open>i\<close>, \<open>isAboveRoleGrip\<close> returns (without an
  assertion failing) whether \<open>x\<close> lies in the closed interval from the right edge of column
  \<open>i\<close> minus the grip margin to that right edge, where the right edge is the running sum of
  the widths of columns \<open>0..i\<close> as the header accumulates it in \<open>qreal\<close> arithmetic and the
  subtraction of the margin is rounded likewise.
\<close>

theorem isAboveRoleGrip_iff:
  "i < length (m_visibleRoles s) \<Longrightarrow>
   isAboveRoleGrip h s pos (int i) =
     Some (qle (qsub (rightEdge s i) (qreal_of_int (PM_HeaderGripMargin h))) (pos_x pos) \<and>
           qle (pos_x pos) (rightEdge s i))"
  using isAboveRoleGrip_loop_sum
          [of 0 "int i" "m_visibleRoles s" "m_visibleRolesWidths s" "Fin 0"]
  by (simp add: isAboveRoleGrip_def rightEdge_def edge_def nat_add_distrib qge_def)

theorem isAboveRoleGrip_iff_witness:
  "0 < length (m_visibleRoles abc_header) \<and>
   isAboveRoleGrip plain_host abc_header (Fin 45, Fin 0) 0 = Some False \<and>
   isAboveRoleGrip plain_host abc_header (Fin 46, Fin 0) 0 = Some True \<and>
   isAboveRoleGrip plain_host abc_header (Fin 47, Fin 0) 0 = Some True \<and>
   isAboveRoleGrip plain_host abc_header (Fin 48, Fin 0) 0 = Some True \<and>
   isAboveRoleGrip plain_host abc_header (Fin 49, Fin 0) 0 = Some True \<and>
   isAboveRoleGrip plain_host abc_header (Fin 50, Fin 0) 0 = Some True \<and>
   isAboveRoleGrip plain_host abc_header (Fin 51, Fin 0) 0 = Some False"
  using isAboveRoleGrip_iff [of 0 abc_header plain_host "(Fin 45, Fin 0)"]
        isAboveRoleGrip_iff [of 0 abc_header plain_host "(Fin 46, Fin 0)"]
        isAboveRoleGrip_iff [of 0 abc_header plain_host "(Fin 47, Fin 0)"]
        isAboveRoleGrip_iff [of 0 abc_header plain_host "(Fin 48, Fin 0)"]
        isAboveRoleGrip_iff [of 0 abc_header plain_host "(Fin 49, Fin 0)"]
        isAboveRoleGrip_iff [of 0 abc_header plain_host "(Fin 50, Fin 0)"]
        isAboveRoleGrip_iff [of 0 abc_header plain_host "(Fin 51, Fin 0)"]
  by (simp add: abc_roles abc_facts plain_host_fields pos_x_def qsub_def qreal_of_int_def
        round64_Ints)

text \<open>
  C4: \<open>roleIndexAt\<close> on an empty list of visible roles returns \<open>-1\<close> ("none"), whatever the
  pointer position.
\<close>

theorem roleIndexAt_empty:
  "roleIndexAt (s\<lparr>m_visibleRoles := []\<rparr>) pos = - 1"
  by (simp add: roleIndexAt_def)

text \<open>
  C5, as the specification states it, fails where the total is rounded: with columns of
  widths 0.1, 0.2 and 0 the pointer position 0.3000000000000000444 exceeds the exact total
  width, and \<open>roleIndexAt\<close> returns column 1, not the last column 2.
\<close>

theorem roleIndexAt_clamps_counterexample:
  "spec_exceeds_total tenths_header (1351079888211149 / 4503599627370496) \<and>
   roleIndexAt tenths_header (Fin (1351079888211149 / 4503599627370496), Fin 0) = 1 \<and>
   int (length (m_visibleRoles tenths_header)) - 1 = 2"
  by (simp add: tenths_at spec_exceeds_total_def tenths_roles tenths_exact
        numeral_3_eq_3 [symmetric])

text \<open>
  C5 (amended): on a non-empty list of columns with non-negative widths, \<open>roleIndexAt\<close>
  returns the index of the last column for every \<open>x\<close> beyond the total width as the header
  accumulates it in \<open>qreal\<close> arithmetic, and \<open>0\<close>, the index of the first column, for every
  \<open>x \<le> 0\<close>.
\<close>

theorem roleIndexAt_clamps:
  "nonneg_widths s \<Longrightarrow> m_visibleRoles s \<noteq> [] \<Longrightarrow>
   (qlt (totalWidth s) (pos_x pos) \<longrightarrow> roleIndexAt s pos = int (length (m_visibleRoles s)) - 1) \<and>
   (qle (pos_x pos) (Fin 0) \<longrightarrow> roleIndexAt s pos = 0)"
proof (intro conjI impI)
  assume nn: "nonneg_widths s" and ne: "m_visibleRoles s \<noteq> []"
  {
    assume "qlt (totalWidth s) (pos_x pos)"
    with nn roleIndexAt_loop_beyond
           [of "m_visibleRolesWidths s" "m_visibleRoles s" "Fin 0" "pos_x pos" "- 1"]
    show "roleIndexAt s pos = int (length (m_visibleRoles s)) - 1"
      by (simp add: roleIndexAt_def nonneg_widths_def totalWidth_def edge_def good_0)
  next
    assume le: "qle (pos_x pos) (Fin 0)"
    from ne obtain role roles where rs: "m_visibleRoles s = role # roles"
      by (cases "m_visibleRoles s") auto
    with nn have "qle (Fin 0) (hash_value (m_visibleRolesWidths s) role)"
      by (simp add: nonneg_widths_def)
    with le rs roleIndexAt_loop_first [of "pos_x pos" "m_visibleRolesWidths s" role roles "- 1"]
    show "roleIndexAt s pos = 0"
      by (simp add: roleIndexAt_def)
  }
qed

theorem roleIndexAt_clamps_witness:
  "nonneg_widths abc_header \<and> m_visibleRoles abc_header \<noteq> [] \<and>
   qlt (totalWidth abc_header) (pos_x (Fin 150, Fin 0)) \<and>
   roleIndexAt abc_header (Fin 150, Fin 0) = 2 \<and>
   qle (pos_x (Fin (- 5), Fin 0)) (Fin 0) \<and> roleIndexAt abc_header (Fin (- 5), Fin 0) = 0"
  using roleIndexAt_clamps [of abc_header "(Fin 150, Fin 0)"]
        roleIndexAt_clamps [of abc_header "(Fin (- 5), Fin 0)"]
  by (simp add: abc_roles abc_facts pos_x_def)

text \<open>
  C7: for a fixed header, the index returned by \<open>roleIndexAt\<close> does not decrease when the
  pointer position grows. (No condition on the widths is needed.)
\<close>

theorem roleIndexAt_mono:
  "qle (pos_x pos1) (pos_x pos2) \<Longrightarrow> roleIndexAt s pos1 \<le> roleIndexAt s pos2"
  unfolding roleIndexAt_def by (rule roleIndexAt_loop_mono)

theorem roleIndexAt_mono_witness:
  "qle (pos_x (Fin 49, Fin 0)) (pos_x (Fin 51, Fin 0)) \<and>
   roleIndexAt abc_header (Fin 49, Fin 0) \<le> roleIndexAt abc_header (Fin 51, Fin 0)"
  using roleIndexAt_mono [of "(Fin 49, Fin 0)" "(Fin 51, Fin 0)" abc_header]
  by (simp add: pos_x_def)

section \<open>Properties of the pointer events\<close>

lemma valid_index_roleIndexAt: "valid_index (m_visibleRoles s) (roleIndexAt s pos)"
proof (cases "m_visibleRoles s")
  case Nil
  then show ?thesis by (simp add: roleIndexAt_def valid_index_def)
next
  case (Cons role roles)
  have "0 \<le> roleIndexAt s pos"
    using roleIndexAt_loop_lower_Cons
            [of "- 1" "m_visibleRolesWidths s" "pos_x pos" role roles "Fin 0"] Cons
    by (simp add: roleIndexAt_def)
  moreover have "roleIndexAt s pos < int (length (m_visibleRoles s))"
    using roleIndexAt_loop_upper
            [of "m_visibleRolesWidths s" "pos_x pos" "m_visibleRoles s" "- 1" "Fin 0"]
    by (simp add: roleIndexAt_def)
  ultimately show ?thesis by (simp add: valid_index_def)
qed

lemma updateHoveredRoleIndex_fields:
  "m_visibleRoles (updateHoveredRoleIndex pos s) = m_visibleRoles s"
  "m_visibleRolesWidths (updateHoveredRoleIndex pos s) = m_visibleRolesWidths s"
  "m_hoveredRoleIndex (updateHoveredRoleIndex pos s) = roleIndexAt s pos"
  "m_pressedRoleIndex (updateHoveredRoleIndex pos s) = m_pressedRoleIndex s"
  by (simp_all add: updateHoveredRoleIndex_def update_def Let_def)

lemma updatePressedRoleIndex_fields:
  "m_visibleRoles (updatePressedRoleIndex pos s) = m_visibleRoles s"
  "m_hoveredRoleIndex (updatePressedRoleIndex pos s) = m_hoveredRoleIndex s"
  "m_pressedRoleIndex (updatePressedRoleIndex pos s) = roleIndexAt s pos"
  by (simp_all add: updatePressedRoleIndex_def update_def Let_def)

lemma setModel_fields:
  "m_visibleRoles (setModel model s) = m_visibleRoles s"
  "m_hoveredRoleIndex (setModel model s) = m_hoveredRoleIndex s"
  "m_pressedRoleIndex (setModel model s) = m_pressedRoleIndex s"
  by (simp_all add: setModel_def connect_model_def disconnect_model_def Let_def
        split: option.splits)

lemma isAboveRoleGrip_total:
  "0 \<le> i \<Longrightarrow> i < int (length (m_visibleRoles s)) \<Longrightarrow> \<exists>b. isAboveRoleGrip h s pos i = Some b"
  using isAboveRoleGrip_loop_sum [of 0 i "m_visibleRoles s" "m_visibleRolesWidths s" "Fin 0"]
  by (simp add: isAboveRoleGrip_def Let_def)

lemma hoverMoveEvent_total:
  "\<exists>c. hoverMoveEvent h pos s = Some ((updateHoveredRoleIndex pos s)\<lparr>cursor := c\<rparr>)"
proof -
  let ?s1 = "updateHoveredRoleIndex pos s"
  have v: "valid_index (m_visibleRoles ?s1) (m_hoveredRoleIndex ?s1)"
    by (simp add: updateHoveredRoleIndex_fields valid_index_roleIndexAt)
  show ?thesis
  proof (cases "0 \<le> m_hoveredRoleIndex ?s1")
    case True
    with v have "m_hoveredRoleIndex ?s1 < int (length (m_visibleRoles ?s1))"
      by (simp add: valid_index_def)
    with True obtain b where "isAboveRoleGrip h ?s1 pos (m_hoveredRoleIndex ?s1) = Some b"
      using isAboveRoleGrip_total by blast
    with True show ?thesis by (auto simp: hoverMoveEvent_def Let_def)
  next
    case False
    then show ?thesis by (auto simp: hoverMoveEvent_def Let_def)
  qed
qed

lemma header_inv_init: "header_inv KItemListHeader"
  by (simp add: header_inv_def valid_index_def KItemListHeader_def)

lemma run_fields:
  "\<exists>s'. run h op s = Some s' \<and>
     m_visibleRoles s' = (case replaces_roles op of None \<Rightarrow> m_visibleRoles s | Some roles \<Rightarrow> roles) \<and>
     (if writes_hovered op then valid_index (m_visibleRoles s') (m_hoveredRoleIndex s')
      else m_hoveredRoleIndex s' = m_hoveredRoleIndex s) \<and>
     (if writes_pressed op then valid_index (m_visibleRoles s') (m_pressedRoleIndex s')
      else m_pressedRoleIndex s' = m_pressedRoleIndex s)"
proof (cases op)
  case (SetModel model)
  then show ?thesis by (simp add: setModel_fields)
next
  case (SetVisibleRoles roles)
  then show ?thesis by (simp add: setVisibleRoles_def update_def)
next
  case (SetVisibleRolesWidths rolesWidths)
  then show ?thesis by (simp add: setVisibleRolesWidths_def update_def)
next
  case (MousePressEvent pos)
  then show ?thesis
    by (simp add: mousePressEvent_def updatePressedRoleIndex_fields valid_index_roleIndexAt)
next
  case MouseReleaseEvent
  then show ?thesis by (simp add: mouseReleaseEvent_def valid_index_def update_def)
next
  case (MouseMoveEvent pos)
  then show ?thesis
    by (simp add: mouseMoveEvent_def updatePressedRoleIndex_fields valid_index_roleIndexAt)
next
  case (HoverEnterEvent pos)
  then show ?thesis
    by (simp add: hoverEnterEvent_def updateHoveredRoleIndex_fields valid_index_roleIndexAt)
next
  case HoverLeaveEvent
  then show ?thesis by (simp add: hoverLeaveEvent_def valid_index_def update_def)
next
  case (HoverMoveEvent pos)
  from hoverMoveEvent_total [of h pos s] obtain c
    where "hoverMoveEvent h pos s = Some ((updateHoveredRoleIndex pos s)\<lparr>cursor := c\<rparr>)" by blast
  with HoverMoveEvent show ?thesis
    by (simp add: updateHoveredRoleIndex_fields valid_index_roleIndexAt)
next
  case (SlotSortRoleChanged current previous)
  then show ?thesis by (simp add: slotSortRoleChanged_def)
next
  case (SlotSortOrderChanged current previous)
  then show ?thesis by (simp add: slotSortOrderChanged_def)
qed

lemma writes_not_replaces:
  "writes_hovered op \<Longrightarrow> replaces_roles op = None"
  "writes_pressed op \<Longrightarrow> replaces_roles op = None"
  "writes_pressed op \<Longrightarrow> \<not> writes_hovered op"
  by (cases op; simp)+

lemma stale_fields:
  "m_visibleRoles stale_header = [''A'']"
  "m_hoveredRoleIndex stale_header = 2"
  "m_pressedRoleIndex stale_header = - 1"
  "m_hoveredRoleIndex (hoverEnterEvent (Fin 90, Fin 0) abc_header) = 2"
  "m_pressedRoleIndex (hoverEnterEvent (Fin 90, Fin 0) abc_header) = - 1"
  "m_visibleRoles (hoverEnterEvent (Fin 90, Fin 0) abc_header) = [''A'', ''B'', ''C'']"
  "update_requests (hoverEnterEvent (Fin 90, Fin 0) abc_header) = 3"
  "update_requests abc_header = 2"
  "m_hoveredRoleIndex abc_header = - 1"
proof -
  have r: "roleIndexAt abc_header (Fin 90, Fin 0) = 2"
    by (simp add: roleIndexAt_def abc_roles abc_hv pos_x_def round64_Ints)
  show i: "update_requests abc_header = 2" "m_hoveredRoleIndex abc_header = - 1"
    by (simp_all add: abc_header_def setVisibleRoles_def setVisibleRolesWidths_def update_def
          KItemListHeader_def)
  have p: "m_pressedRoleIndex abc_header = - 1"
    by (simp add: abc_header_def setVisibleRoles_def setVisibleRolesWidths_def update_def
          KItemListHeader_def)
  show e: "m_hoveredRoleIndex (hoverEnterEvent (Fin 90, Fin 0) abc_header) = 2"
    "m_pressedRoleIndex (hoverEnterEvent (Fin 90, Fin 0) abc_header) = - 1"
    "m_visibleRoles (hoverEnterEvent (Fin 90, Fin 0) abc_header) = [''A'', ''B'', ''C'']"
    "update_requests (hoverEnterEvent (Fin 90, Fin 0) abc_header) = 3"
    by (simp_all add: hoverEnterEvent_def updateHoveredRoleIndex_def Let_def r i p update_def
          abc_roles)
  show "m_visibleRoles stale_header = [''A'']"
    "m_hoveredRoleIndex stale_header = 2"
    "m_pressedRoleIndex stale_header = - 1"
    by (simp_all add: stale_header_def setVisibleRoles_def update_def e)
qed

section \<open>The claims about the interaction state\<close>

text \<open>
  C3, as the specification states it, fails: \<open>setVisibleRoles\<close> replaces the list and
  leaves both indices as they are. Hovering over column 2 of the example header and then
  showing a single column leaves the hovered index 2 behind.
\<close>

theorem header_inv_counterexample:
  "header_inv (hoverEnterEvent (Fin 90, Fin 0) abc_header) \<and>
   \<not> header_inv (setVisibleRoles [''A''] (hoverEnterEvent (Fin 90, Fin 0) abc_header))"
  by (simp add: header_inv_def valid_index_def setVisibleRoles_def update_def stale_fields)

text \<open>
  C3 (amended): the freshly constructed header has both indices "none". From every state,
  every operation returns without a failed assertion; the hover handlers (enter, move,
  leave) leave the hovered index "none" or a valid index into the current list of
  columns and the mouse handlers (press, move, release) do so for the pressed index; an
  operation changes no index that it does not write in this way, and only
  \<open>setVisibleRoles\<close> changes the list. Hence every operation other than \<open>setVisibleRoles\<close>
  preserves "both indices are none or valid" when it held before, and after
  \<open>setVisibleRoles\<close> an index that no longer fits stays until the next handler that writes
  it: from every state, one hover handler followed by one mouse handler makes both
  indices none or valid.
\<close>

theorem header_indices:
  "header_inv KItemListHeader \<and>
   (\<exists>s'. run h op s = Some s' \<and>
      m_visibleRoles s' = (case replaces_roles op of None \<Rightarrow> m_visibleRoles s | Some roles \<Rightarrow> roles) \<and>
      (if writes_hovered op then valid_index (m_visibleRoles s') (m_hoveredRoleIndex s')
       else m_hoveredRoleIndex s' = m_hoveredRoleIndex s) \<and>
      (if writes_pressed op then valid_index (m_visibleRoles s') (m_pressedRoleIndex s')
       else m_pressedRoleIndex s' = m_pressedRoleIndex s) \<and>
      (replaces_roles op = None \<and> header_inv s \<longrightarrow> header_inv s')) \<and>
   (writes_hovered op1 \<and> writes_pressed op2 \<longrightarrow>
      (\<exists>s''. run_ops h [op1, op2] s = Some s'' \<and> header_inv s''))"
proof (intro conjI)
  show "header_inv KItemListHeader" by (rule header_inv_init)
next
  from run_fields [of h op s] obtain s' where s':
    "run h op s = Some s'"
    "m_visibleRoles s' = (case replaces_roles op of None \<Rightarrow> m_visibleRoles s | Some roles \<Rightarrow> roles)"
    "if writes_hovered op then valid_index (m_visibleRoles s') (m_hoveredRoleIndex s')
     else m_hoveredRoleIndex s' = m_hoveredRoleIndex s"
    "if writes_pressed op then valid_index (m_visibleRoles s') (m_pressedRoleIndex s')
     else m_pressedRoleIndex s' = m_pressedRoleIndex s"
    by blast
  have "replaces_roles op = None \<and> header_inv s \<longrightarrow> header_inv s'"
    using s'(2,3,4) by (auto simp: header_inv_def split: if_splits)
  with s' show "\<exists>s'. run h op s = Some s' \<and>
      m_visibleRoles s' = (case replaces_roles op of None \<Rightarrow> m_visibleRoles s | Some roles \<Rightarrow> roles) \<and>
      (if writes_hovered op then valid_index (m_visibleRoles s') (m_hoveredRoleIndex s')
       else m_hoveredRoleIndex s' = m_hoveredRoleIndex s) \<and>
      (if writes_pressed op then valid_index (m_visibleRoles s') (m_pressedRoleIndex s')
       else m_pressedRoleIndex s' = m_pressedRoleIndex s) \<and>
      (replaces_roles op = None \<and> header_inv s \<longrightarrow> header_inv s')"
    by blast
next
  show "writes_hovered op1 \<and> writes_pressed op2 \<longrightarrow>
      (\<exists>s''. run_ops h [op1, op2] s = Some s'' \<and> header_inv s'')"
  proof
    assume w: "writes_hovered op1 \<and> writes_pressed op2"
    from run_fields [of h op1 s] w writes_not_replaces(1) [of op1] obtain s1 where s1:
      "run h op1 s = Some s1" "m_visibleRoles s1 = m_visibleRoles s"
      "valid_index (m_visibleRoles s1) (m_hoveredRoleIndex s1)"
      by auto
    from run_fields [of h op2 s1] w writes_not_replaces(2,3) [of op2] obtain s2 where s2:
      "run h op2 s1 = Some s2" "m_visibleRoles s2 = m_visibleRoles s1"
      "m_hoveredRoleIndex s2 = m_hoveredRoleIndex s1"
      "valid_index (m_visibleRoles s2) (m_pressedRoleIndex s2)"
      by auto
    from s1 s2 show "\<exists>s''. run_ops h [op1, op2] s = Some s'' \<and> header_inv s''"
      by (simp add: header_inv_def)
  qed
qed

theorem header_indices_witness:
  "writes_hovered (HoverEnterEvent (Fin 10, Fin 0)) \<and> writes_pressed MouseReleaseEvent \<and>
   \<not> header_inv stale_header \<and>
   header_inv (mouseReleaseEvent (hoverEnterEvent (Fin 10, Fin 0) stale_header)) \<and>
   replaces_roles (MousePressEvent (Fin 10, Fin 0)) = None \<and>
   header_inv (hoverEnterEvent (Fin 90, Fin 0) abc_header) \<and>
   header_inv (mousePressEvent (Fin 10, Fin 0) (hoverEnterEvent (Fin 90, Fin 0) abc_header)) \<and>
   m_hoveredRoleIndex (mousePressEvent (Fin 10, Fin 0) stale_header) = 2"
proof -
  have stale: "\<not> header_inv stale_header"
    by (simp add: header_inv_def valid_index_def stale_fields)
  have inv: "header_inv (hoverEnterEvent (Fin 90, Fin 0) abc_header)"
    by (simp add: header_inv_def valid_index_def stale_fields)
  have w: "writes_hovered (HoverEnterEvent (Fin 10, Fin 0)) \<and> writes_pressed MouseReleaseEvent"
    by simp
  from header_indices [of plain_host "MousePressEvent (Fin 10, Fin 0)" stale_header
          "HoverEnterEvent (Fin 10, Fin 0)" MouseReleaseEvent] w
  have "\<exists>s''. run_ops plain_host [HoverEnterEvent (Fin 10, Fin 0), MouseReleaseEvent] stale_header
          = Some s'' \<and> header_inv s''"
    by blast
  then have recovered: "header_inv (mouseReleaseEvent (hoverEnterEvent (Fin 10, Fin 0) stale_header))"
    by simp
  from header_indices [of plain_host "MousePressEvent (Fin 10, Fin 0)"
          "hoverEnterEvent (Fin 90, Fin 0) abc_header"
          "HoverEnterEvent (Fin 10, Fin 0)" MouseReleaseEvent]
  have "\<exists>s'. run plain_host (MousePressEvent (Fin 10, Fin 0))
                (hoverEnterEvent (Fin 90, Fin 0) abc_header) = Some s' \<and>
             (replaces_roles (MousePressEvent (Fin 10, Fin 0)) = None \<and>
              header_inv (hoverEnterEvent (Fin 90, Fin 0) abc_header) \<longrightarrow> header_inv s')"
    by blast
  with inv have kept:
    "header_inv (mousePressEvent (Fin 10, Fin 0) (hoverEnterEvent (Fin 90, Fin 0) abc_header))"
    by simp
  have still: "m_hoveredRoleIndex (mousePressEvent (Fin 10, Fin 0) stale_header) = 2"
    by (simp add: mousePressEvent_def updatePressedRoleIndex_fields stale_fields)
  from stale inv recovered kept still show ?thesis by simp
qed

text \<open>
  C6: \<open>hoverLeaveEvent\<close> sets the hovered index to "none" whatever it was, and requests
  a redraw exactly when it was not "none" before.
\<close>

theorem hoverLeaveEvent_resets:
  "m_hoveredRoleIndex (hoverLeaveEvent s) = - 1 \<and>
   update_requests (hoverLeaveEvent s) =
     (if m_hoveredRoleIndex s \<noteq> - 1 then update_requests s + 1 else update_requests s)"
  by (simp add: hoverLeaveEvent_def update_def)

theorem hoverLeaveEvent_resets_witness:
  "m_hoveredRoleIndex (hoverLeaveEvent (hoverEnterEvent (Fin 90, Fin 0) abc_header)) = - 1 \<and>
   update_requests (hoverLeaveEvent (hoverEnterEvent (Fin 90, Fin 0) abc_header)) = 4 \<and>
   m_hoveredRoleIndex (hoverLeaveEvent abc_header) = - 1 \<and>
   update_requests (hoverLeaveEvent abc_header) = 2"
  using hoverLeaveEvent_resets [of "hoverEnterEvent (Fin 90, Fin 0) abc_header"]
        hoverLeaveEvent_resets [of abc_header]
  by (simp add: stale_fields)

section \<open>Properties of painting and of the hash of widths\<close>

lemma hash_value_absent: "widths role = None \<Longrightarrow> hash_value widths role = Fin 0"
  by (simp add: hash_value_def)

lemma hash_value_zero_entry:
  "widths role = None \<Longrightarrow> hash_value (widths(role \<mapsto> Fin 0)) = hash_value widths"
  by (rule ext) (simp add: hash_value_def)

lemma roleIndexAt_loop_cong:
  "hash_value widths' = hash_value widths \<Longrightarrow>
   roleIndexAt_loop widths' px roles index x = roleIndexAt_loop widths px roles index x"
  by (induction roles arbitrary: index x) (simp_all add: Let_def)

lemma isAboveRoleGrip_loop_cong:
  "hash_value widths' = hash_value widths \<Longrightarrow>
   isAboveRoleGrip_loop widths' roles roleIndex i x
   = isAboveRoleGrip_loop widths roles roleIndex i x"
proof (induction widths roles roleIndex i x rule: isAboveRoleGrip_loop.induct)
  case (1 widths roles roleIndex i x)
  show ?case
  proof (cases "i \<le> roleIndex")
    case True
    show ?thesis
    proof (cases "list_at roles i")
      case None
      with True show ?thesis
        by (simp add: isAboveRoleGrip_loop.simps [of _ roles roleIndex i x])
    next
      case (Some role)
      with True "1.IH" [OF True Some "1.prems"] "1.prems" show ?thesis
        by (simp add: isAboveRoleGrip_loop.simps [of _ roles roleIndex i x])
    qed
  next
    case False
    then show ?thesis
      by (simp add: isAboveRoleGrip_loop.simps [of _ roles roleIndex i x])
  qed
qed

lemma paintRole_widths:
  "paintRole h (s\<lparr>m_visibleRolesWidths := widths'\<rparr>) role rect orderIndex
   = paintRole h s role rect orderIndex"
  by (simp add: paintRole_def)

lemma paint_loop_cong:
  "hash_value widths' = hash_value (m_visibleRolesWidths s) \<Longrightarrow>
   paint_loop h (s\<lparr>m_visibleRolesWidths := widths'\<rparr>) roles x orderIndex
   = paint_loop h s roles x orderIndex"
  by (induction roles arbitrary: x orderIndex)
    (simp_all add: Let_def paintRole_widths split: option.splits)

lemma paintRole_total:
  "m_model s = Some m \<Longrightarrow> \<exists>c. paintRole h s role rect orderIndex = Some c"
  by (simp add: paintRole_def Let_def)

lemma paint_loop_total:
  "m_model s = Some m \<Longrightarrow> \<exists>cs x'. paint_loop h s roles x orderIndex = Some (cs, x')"
proof (induction roles arbitrary: x orderIndex)
  case Nil
  show ?case by simp
next
  case (Cons role roles)
  let ?w = "hash_value (m_visibleRolesWidths s) role"
  from Cons.prems obtain c
    where c: "paintRole h s role (x, Fin 0, ?w, size_height h) orderIndex = Some c"
    using paintRole_total by blast
  from Cons.IH [OF Cons.prems] obtain cs x'
    where l: "paint_loop h s roles (qadd x ?w) (orderIndex + 1) = Some (cs, x')"
    by blast
  from c l show ?case by (simp add: Let_def)
qed

lemma paint_with_model:
  assumes "m_model s = Some m"
  shows "\<exists>cs. paint h s = Some cs \<and> cs \<noteq> []"
proof -
  from paint_loop_total [OF assms] obtain cs x'
    where "paint_loop h s (m_visibleRoles s) (Fin 0) 0 = Some (cs, x')" by blast
  with assms show ?thesis by (simp add: paint_def Let_def)
qed

lemma paint_total: "\<exists>cs. paint h s = Some cs"
proof (cases "m_model s")
  case None
  then show ?thesis by (simp add: paint_def)
next
  case (Some m)
  with paint_with_model show ?thesis by blast
qed

lemma abc_model: "m_model abc_header = None"
  by (simp add: abc_header_def setVisibleRoles_def setVisibleRolesWidths_def update_def
        KItemListHeader_def)

lemma adc_model_facts:
  "m_model adc_model_header = Some 7"
  "m_visibleRoles adc_model_header = [''A'', ''D'', ''C'']"
  "m_visibleRolesWidths adc_model_header ''D'' = None"
  "hash_value (m_visibleRolesWidths adc_model_header) ''A'' = Fin 50"
  "hash_value (m_visibleRolesWidths adc_model_header) ''D'' = Fin 0"
  "hash_value (m_visibleRolesWidths adc_model_header) ''C'' = Fin 20"
  "m_hoveredRoleIndex adc_model_header = - 1"
  "m_pressedRoleIndex adc_model_header = - 1"
  by (simp_all add: adc_model_header_def setModel_def connect_model_def Let_def adc_header_def
      abc_header_def setVisibleRoles_def setVisibleRolesWidths_def update_def KItemListHeader_def
      hash_value_def)

section \<open>The claims about painting and missing widths\<close>

text \<open>
  C9: when a role has no entry in the hash of widths, its width counts as \<open>0\<close>:
  \<open>roleIndexAt\<close>, \<open>isAboveRoleGrip\<close> and \<open>paint\<close> give what they give on the header
  where the width \<open>0\<close> has been entered for that role, and \<open>paint\<close> does not fail.
\<close>

theorem missing_width_is_zero:
  "m_visibleRolesWidths s role = None \<Longrightarrow>
   hash_value (m_visibleRolesWidths s) role = Fin 0 \<and>
   roleIndexAt s pos = roleIndexAt (with_zero_width role s) pos \<and>
   isAboveRoleGrip h s pos i = isAboveRoleGrip h (with_zero_width role s) pos i \<and>
   paint h s = paint h (with_zero_width role s) \<and>
   paint h s \<noteq> None"
proof (intro conjI)
  assume a: "m_visibleRolesWidths s role = None"
  let ?w' = "(m_visibleRolesWidths s)(role \<mapsto> Fin 0)"
  have eq: "hash_value ?w' = hash_value (m_visibleRolesWidths s)"
    using a by (rule hash_value_zero_entry)
  show "hash_value (m_visibleRolesWidths s) role = Fin 0"
    using a by (rule hash_value_absent)
  show "roleIndexAt s pos = roleIndexAt (with_zero_width role s) pos"
    by (simp add: roleIndexAt_def with_zero_width_def roleIndexAt_loop_cong [OF eq])
  show "isAboveRoleGrip h s pos i = isAboveRoleGrip h (with_zero_width role s) pos i"
    by (simp add: isAboveRoleGrip_def with_zero_width_def isAboveRoleGrip_loop_cong [OF eq])
  show "paint h s = paint h (with_zero_width role s)"
    by (cases "m_model s") (simp_all add: paint_def with_zero_width_def paint_loop_cong [OF eq])
  show "paint h s \<noteq> None"
    using paint_total [of h s] by auto
qed

theorem missing_width_is_zero_witness:
  "m_visibleRolesWidths adc_model_header ''D'' = None \<and>
   roleIndexAt (with_zero_width ''D'' adc_model_header) (Fin 60, Fin 0) = 2 \<and>
   isAboveRoleGrip plain_host (with_zero_width ''D'' adc_model_header) (Fin 48, Fin 0) 1 = Some True \<and>
   paint plain_host (with_zero_width ''D'' adc_model_header) =
     Some
      [SetFont, SetPen,
       DrawControl_Header
        \<lparr>option_section = 0,
           option_state = {State_Active, State_Enabled, State_Raised},
           option_rect = (0, 0, 50, 20), option_position = Beginning,
           option_selectedPosition = NotAdjacent, option_text = ''A''\<rparr>,
       DrawControl_Header
        \<lparr>option_section = 1,
           option_state = {State_Active, State_Enabled, State_Raised},
           option_rect = (50, 0, 0, 20), option_position = Middle,
           option_selectedPosition = NotAdjacent, option_text = ''D''\<rparr>,
       DrawControl_Header
        \<lparr>option_section = 2,
           option_state = {State_Active, State_Enabled, State_Raised},
           option_rect = (50, 0, 20, 20), option_position = End,
           option_selectedPosition = NotAdjacent, option_text = ''C''\<rparr>,
       DrawControl_HeaderEmptyArea (70, 0, 130, 20)
        {State_Horizontal, State_Enabled}]"
proof -
  have r: "roleIndexAt adc_model_header (Fin 60, Fin 0) = 2"
    by (simp add: roleIndexAt_def adc_model_facts pos_x_def round64_Ints)
  have g: "isAboveRoleGrip plain_host adc_model_header (Fin 48, Fin 0) 1 = Some True"
    by (simp add: isAboveRoleGrip_def isAboveRoleGrip_loop.simps list_at_def adc_model_facts
          plain_host_fields pos_x_def Let_def qge_def qsub_def qreal_of_int_def round64_Ints)
  have p: "paint plain_host adc_model_header =
     Some
      [SetFont, SetPen,
       DrawControl_Header
        \<lparr>option_section = 0,
           option_state = {State_Active, State_Enabled, State_Raised},
           option_rect = (0, 0, 50, 20), option_position = Beginning,
           option_selectedPosition = NotAdjacent, option_text = ''A''\<rparr>,
       DrawControl_Header
        \<lparr>option_section = 1,
           option_state = {State_Active, State_Enabled, State_Raised},
           option_rect = (50, 0, 0, 20), option_position = Middle,
           option_selectedPosition = NotAdjacent, option_text = ''D''\<rparr>,
       DrawControl_Header
        \<lparr>option_section = 2,
           option_state = {State_Active, State_Enabled, State_Raised},
           option_rect = (50, 0, 20, 20), option_position = End,
           option_selectedPosition = NotAdjacent, option_text = ''C''\<rparr>,
       DrawControl_HeaderEmptyArea (70, 0, 130, 20)
        {State_Horizontal, State_Enabled}]"
    by (simp add: paint_def adc_model_facts paintRole_def Let_def plain_host_fields
          qreal_to_int_def rect_width_def round64_Ints qsub_def)
  show ?thesis
    using missing_width_is_zero [of adc_model_header "''D''" "(Fin 60, Fin 0)" plain_host 1]
          missing_width_is_zero [of adc_model_header "''D''" "(Fin 48, Fin 0)" plain_host 1]
    by (simp add: adc_model_facts r g p)
qed

text \<open>
  C10: without a model \<open>paint\<close> returns at once and draws nothing, neither a column
  header nor the empty area; whenever \<open>paint\<close> draws anything, a model is set.
\<close>

theorem paint_without_model:
  "(m_model s = None \<longrightarrow> paint h s = Some []) \<and>
   (paint h s \<noteq> Some [] \<longrightarrow> m_model s \<noteq> None)"
  by (cases "m_model s") (simp_all add: paint_def)

theorem paint_without_model_witness:
  "m_model abc_header = None \<and> paint plain_host abc_header = Some [] \<and>
   paint plain_host adc_model_header \<noteq> Some [] \<and> m_model adc_model_header \<noteq> None"
  using paint_without_model [of abc_header plain_host]
        paint_without_model [of adc_model_header plain_host]
        paint_with_model [of adc_model_header 7 plain_host]
  by (auto simp: abc_model adc_model_facts)

section \<open>The claim about the version classification\<close>

text \<open>
  C8: the classification \<open>ItemVersion\<close> has the ten values of the data model and no
  other, declared in the order in which the data model lists them.
\<close>

theorem ItemVersion_ten_values:
  "set spec_version_statuses = (UNIV :: ItemVersion set) \<and>
   length spec_version_statuses = 10 \<and>
   map ItemVersion_value spec_version_statuses = [0, 1, 2, 3, 4, 5, 6, 7, 8, 9]"
proof -
  have "x \<in> set spec_version_statuses" for x
    by (cases x) (simp_all add: spec_version_statuses_def)
  then have "set spec_version_statuses = UNIV" by auto
  then show ?thesis by (simp add: spec_version_statuses_def)
qed

end
